theory Spec2Isabelle
  imports Main "HOL-Library.AList"
begin

section \<open>Strings and numbers\<close>

text \<open>
  A JavaScript string is a sequence of UTF-16 code units; \<open>length\<close> and \<open>charCodeAt\<close>
  count and read code units.  File and rank numbers, the half-move clock and the hash are
  integer-valued numbers, modelled as \<open>int\<close>.
\<close>

type_synonym jsstring = "nat list"

definition str :: "string \<Rightarrow> jsstring" where
  "str s = map of_char s"

text \<open>\<open>Number.prototype.toString\<close> on an integer: decimal digits, a minus sign first.\<close>

function digits :: "int \<Rightarrow> jsstring" where
  "digits n = (if n < 10 then [nat (48 + n)] else digits (n div 10) @ [nat (48 + n mod 10)])"
  by pat_completeness auto
termination
  by (relation "measure nat") auto

declare digits.simps [simp del]

definition Number_toString :: "int \<Rightarrow> jsstring" where
  "Number_toString i = (if i < 0 then 45 # digits (- i) else digits i)"

text \<open>\<open>String.prototype.indexOf\<close>: the first index at which the pattern occurs, or -1.\<close>

fun indexOf_from :: "int \<Rightarrow> jsstring \<Rightarrow> jsstring \<Rightarrow> int" where
  "indexOf_from i [] pat = (if pat = [] then i else - 1)"
| "indexOf_from i (c # cs) pat =
     (if take (length pat) (c # cs) = pat then i else indexOf_from (i + 1) cs pat)"

definition indexOf :: "jsstring \<Rightarrow> jsstring \<Rightarrow> int" where
  "indexOf s pat = indexOf_from 0 s pat"

text \<open>\<open>x | 0\<close>: the conversion of an integer to a signed 32-bit integer.\<close>

definition toInt32 :: "int \<Rightarrow> int" where
  "toInt32 x = (x + 2147483648) mod 4294967296 - 2147483648"


section \<open>pieces.js: colors, piece types, squares\<close>

datatype Color = WHITE | BLACK

datatype Type = PAWN | ROOK | KNIGHT | BISHOP | QUEEN | KING

definition swap :: "Color \<Rightarrow> Color" where
  "swap c = (if c = WHITE then BLACK else WHITE)"

record Square =
  fileNumber :: int
  rankNumber :: int

text \<open>The constructor of \<open>Square\<close>, with a file number and with a file letter (its code unit).\<close>

definition Square_new :: "int \<Rightarrow> int \<Rightarrow> Square" where
  "Square_new f r = \<lparr>fileNumber = f, rankNumber = r\<rparr>"

definition Square_of_letter :: "nat \<Rightarrow> int \<Rightarrow> Square" where
  "Square_of_letter c r = Square_new (int c - 65 + 1) r"

text \<open>\<open>String.fromCharCode\<close> keeps its argument modulo \<open>2^16\<close>.\<close>

definition getFileLetter :: "Square \<Rightarrow> jsstring" where
  "getFileLetter s = [nat ((65 + fileNumber s - 1) mod 65536)]"

definition relative :: "Square \<Rightarrow> int \<Rightarrow> int \<Rightarrow> Square" where
  "relative s fileRelative rankRelative =
     Square_new (fileNumber s + fileRelative) (rankNumber s + rankRelative)"

definition isValid :: "Square \<Rightarrow> bool" where
  "isValid s =
     (rankNumber s \<ge> 1 \<and> fileNumber s \<ge> 1 \<and> rankNumber s \<le> 8 \<and> fileNumber s \<le> 8)"

text \<open>\<open>equals(other)\<close>; \<open>other\<close> may be \<open>undefined\<close> (\<open>None\<close>), which equals no square.\<close>

definition Square_equals :: "Square \<Rightarrow> Square option \<Rightarrow> bool" where
  "Square_equals s other =
     (case other of
        None \<Rightarrow> False
      | Some o' \<Rightarrow> fileNumber s = fileNumber o' \<and> rankNumber s = rankNumber o')"

definition asString :: "Square \<Rightarrow> jsstring" where
  "asString s = getFileLetter s @ Number_toString (rankNumber s)"

text \<open>
  The loop of \<open>getRelativesUntilInvalid\<close>.  The method throws before the loop when both
  offsets are zero; the loop itself is written to stop there too, which makes it total.
\<close>

function relativesLoop :: "Square \<Rightarrow> int \<Rightarrow> int \<Rightarrow> Square list" where
  "relativesLoop current fileRelative rankRelative =
     (let next = relative current fileRelative rankRelative in
      if \<not> isValid next \<or> (fileRelative = 0 \<and> rankRelative = 0) then []
      else next # relativesLoop next fileRelative rankRelative)"
  by pat_completeness auto
termination
  by (relation "measure (\<lambda>(s, df, dr).
        if df > 0 then nat (9 - fileNumber s)
        else if df < 0 then nat (fileNumber s)
        else if dr > 0 then nat (9 - rankNumber s)
        else nat (rankNumber s))")
     (auto simp: relative_def isValid_def Square_new_def)

declare relativesLoop.simps [simp del]

datatype error = Error

definition getRelativesUntilInvalid :: "Square \<Rightarrow> int \<Rightarrow> int \<Rightarrow> error + Square list" where
  "getRelativesUntilInvalid s fileRelative rankRelative =
     (if fileRelative = 0 \<and> rankRelative = 0 then Inl Error
      else Inr (relativesLoop s fileRelative rankRelative))"

text \<open>
  Callers with offsets that are not both zero (the literal offsets of the pieces, and the
  reduced offsets of \<open>pathTo\<close>, reached only for two different squares) cannot meet the
  exception, and take the list.
\<close>

definition ray :: "Square \<Rightarrow> int \<Rightarrow> int \<Rightarrow> Square list" where
  "ray s fileRelative rankRelative =
     (case getRelativesUntilInvalid s fileRelative rankRelative of
        Inl e \<Rightarrow> []
      | Inr squares \<Rightarrow> squares)"

text \<open>
  The \<open>while\<close> loop of \<open>pathTo\<close> pops squares off the end of the path until the popped
  square is the target; \<open>popUntil\<close> works on the reversed path.
\<close>

fun popUntil :: "Square \<Rightarrow> Square list \<Rightarrow> Square list" where
  "popUntil other [] = []"
| "popUntil other (x # xs) =
     (if Square_equals x (Some other) then xs else popUntil other xs)"

definition pathTo :: "Square \<Rightarrow> Square \<Rightarrow> Square list" where
  "pathTo this other =
     (if Square_equals other (Some this) then []
      else
        let fileChange = fileNumber other - fileNumber this;
            rankChange = rankNumber other - rankNumber this;
            fileChangeReduced = (if fileChange = 0 then 0 else fileChange div \<bar>fileChange\<bar>);
            rankChangeReduced = (if rankChange = 0 then 0 else rankChange div \<bar>rankChange\<bar>)
        in
          if fileChange = 0 \<or> rankChange = 0 \<or> \<bar>fileChange\<bar> = \<bar>rankChange\<bar>
          then rev (popUntil other (rev (ray this fileChangeReduced rankChangeReduced)))
          else [])"

text \<open>
  \<open>Square.fromString\<close>: \<open>None\<close> is \<open>undefined\<close>.  For a string of two code units,
  \<open>charCodeAt(0)\<close> and \<open>charCodeAt(1)\<close> are its two elements.
\<close>

definition fromString :: "jsstring \<Rightarrow> Square option" where
  "fromString string =
     (if length string \<noteq> 2 then None
      else
        let square = Square_new (int (string ! 0) - 65 + 1) (int (string ! 1) - 49 + 1)
        in if \<not> isValid square then None else Some square)"


section \<open>pieces.js, moves.js, board.js: the data\<close>

record Piece =
  validMoves :: "Square list"
  type :: Type
  color :: Color
  location :: Square

text \<open>
  A move refers to the piece that was moved; the model keeps the fields of that piece as
  they are when the move is recorded.
\<close>

record Move =
  move_piece :: "Piece option"
  move_from :: Square
  move_to :: Square
  move_capture :: bool
  move_extra :: "jsstring option"

record ColorFlags =
  white :: bool
  black :: bool

definition flag :: "ColorFlags \<Rightarrow> Color \<Rightarrow> bool" where
  "flag fl c = (case c of WHITE \<Rightarrow> white fl | BLACK \<Rightarrow> black fl)"

definition set_flag :: "ColorFlags \<Rightarrow> Color \<Rightarrow> bool \<Rightarrow> ColorFlags" where
  "set_flag fl c v = (case c of WHITE \<Rightarrow> fl\<lparr>white := v\<rparr> | BLACK \<Rightarrow> fl\<lparr>black := v\<rparr>)"

record CastlingRights =
  long :: ColorFlags
  short :: ColorFlags

text \<open>
  The en passant square of a board is a reference to a \<open>Square\<close> object, and
  \<open>Board.equals\<close> compares two such references with \<open>!==\<close>, by identity.  A reference
  is modelled by the identity of the object together with its (immutable) fields.
\<close>

record SquareRef =
  ref_id :: nat
  ref_square :: Square

text \<open>
  \<open>pieces\<close> is the object \<open>_pieces\<close>: its keys in insertion order, each with its piece.
  \<open>dirty\<close> and \<open>hash\<close> are \<open>_dirty\<close> and \<open>_hash\<close>.
\<close>

record Board =
  highlightedSquares :: "Square list"
  lastMove :: "Move option"
  castlingRights :: CastlingRights
  enPassantSquare :: "SquareRef option"
  pieces :: "(jsstring \<times> Piece) list"
  dirty :: bool
  hash :: jsstring

definition Board_new :: Board where
  "Board_new =
     \<lparr>highlightedSquares = [],
      lastMove = None,
      castlingRights =
        \<lparr>long = \<lparr>white = False, black = False\<rparr>, short = \<lparr>white = False, black = False\<rparr>\<rparr>,
      enPassantSquare = None,
      pieces = [],
      dirty = True,
      hash = []\<rparr>"

definition setPiece :: "Board \<Rightarrow> Piece \<Rightarrow> Board" where
  "setPiece b p = b\<lparr>pieces := AList.update (asString (location p)) p (pieces b), dirty := True\<rparr>"

definition removePieceAt :: "Board \<Rightarrow> Square \<Rightarrow> Board" where
  "removePieceAt b loc = b\<lparr>pieces := AList.delete (asString loc) (pieces b), dirty := True\<rparr>"

definition getPiece :: "Board \<Rightarrow> Square \<Rightarrow> Piece option" where
  "getPiece b loc = map_of (pieces b) (asString loc)"

definition isPathClear :: "Board \<Rightarrow> Square list \<Rightarrow> bool" where
  "isPathClear b path = list_all (\<lambda>it. getPiece b it = None) path"


section \<open>pieces.js: candidate moves\<close>

definition removeInvalidMoves :: "Piece \<Rightarrow> Piece" where
  "removeInvalidMoves p = p\<lparr>validMoves := filter isValid (validMoves p)\<rparr>"

definition getAdvanceDirection :: "Piece \<Rightarrow> int" where
  "getAdvanceDirection p = (if color p = WHITE then 1 else - 1)"

text \<open>The pawn pushes its candidates onto the list it already has.\<close>

definition Pawn_recalculateValidMoves :: "Piece \<Rightarrow> Piece" where
  "Pawn_recalculateValidMoves p =
     (let advanceDirection = getAdvanceDirection p;
          pushed = validMoves p @
            [relative (location p) 0 advanceDirection,
             relative (location p) 1 advanceDirection,
             relative (location p) (- 1) advanceDirection];
          pushed' =
            (if (rankNumber (location p) = 2 \<and> color p = WHITE) \<or>
                (rankNumber (location p) = 7 \<and> color p = BLACK)
             then pushed @ [relative (location p) 0 (advanceDirection * 2)]
             else pushed)
      in removeInvalidMoves (p\<lparr>validMoves := pushed'\<rparr>))"

definition Rook_recalculateValidMoves :: "Piece \<Rightarrow> Piece" where
  "Rook_recalculateValidMoves p =
     p\<lparr>validMoves :=
         ray (location p) (- 1) 0 @ ray (location p) 1 0 @
         ray (location p) 0 1 @ ray (location p) 0 (- 1)\<rparr>"

definition Knight_recalculateValidMoves :: "Piece \<Rightarrow> Piece" where
  "Knight_recalculateValidMoves p =
     removeInvalidMoves (p\<lparr>validMoves :=
        [relative (location p) 1 2, relative (location p) (- 1) 2,
         relative (location p) 1 (- 2), relative (location p) (- 1) (- 2),
         relative (location p) 2 1, relative (location p) (- 2) 1,
         relative (location p) 2 (- 1), relative (location p) (- 2) (- 1)]\<rparr>)"

definition Bishop_recalculateValidMoves :: "Piece \<Rightarrow> Piece" where
  "Bishop_recalculateValidMoves p =
     p\<lparr>validMoves :=
         ray (location p) (- 1) (- 1) @ ray (location p) (- 1) 1 @
         ray (location p) 1 (- 1) @ ray (location p) 1 1\<rparr>"

definition Queen_recalculateValidMoves :: "Piece \<Rightarrow> Piece" where
  "Queen_recalculateValidMoves p =
     p\<lparr>validMoves :=
         ray (location p) (- 1) (- 1) @ ray (location p) (- 1) 1 @
         ray (location p) 1 (- 1) @ ray (location p) 1 1 @
         ray (location p) (- 1) 0 @ ray (location p) 1 0 @
         ray (location p) 0 1 @ ray (location p) 0 (- 1)\<rparr>"

text \<open>The king reads the castling rights of the board it stands on.\<close>

definition King_recalculateValidMoves :: "Board \<Rightarrow> Piece \<Rightarrow> Piece" where
  "King_recalculateValidMoves b p =
     (let adjacent =
            [relative (location p) (- 1) (- 1), relative (location p) (- 1) 1,
             relative (location p) 1 (- 1), relative (location p) 1 1,
             relative (location p) (- 1) 0, relative (location p) 1 0,
             relative (location p) 0 1, relative (location p) 0 (- 1)];
          withLong =
            (if flag (long (castlingRights b)) (color p)
             then adjacent @ [relative (location p) (- 2) 0] else adjacent);
          withShort =
            (if flag (short (castlingRights b)) (color p)
             then withLong @ [relative (location p) 2 0] else withLong)
      in p\<lparr>validMoves := filter isValid withShort\<rparr>)"

text \<open>The dispatch of \<open>recalculateValidMoves\<close> on the class of the piece.\<close>

definition recalculateValidMoves :: "Board \<Rightarrow> Piece \<Rightarrow> Piece" where
  "recalculateValidMoves b p =
     (case type p of
        PAWN \<Rightarrow> Pawn_recalculateValidMoves p
      | ROOK \<Rightarrow> Rook_recalculateValidMoves p
      | KNIGHT \<Rightarrow> Knight_recalculateValidMoves p
      | BISHOP \<Rightarrow> Bishop_recalculateValidMoves p
      | QUEEN \<Rightarrow> Queen_recalculateValidMoves p
      | KING \<Rightarrow> King_recalculateValidMoves b p)"

text \<open>
  \<open>Piece.instantiate\<close>: the constructor sets the fields, with an empty list of candidate
  moves, and recalculates.
\<close>

definition instantiate :: "Type \<Rightarrow> Color \<Rightarrow> Board \<Rightarrow> Square \<Rightarrow> Piece" where
  "instantiate t c b square =
     recalculateValidMoves b \<lparr>validMoves = [], type = t, color = c, location = square\<rparr>"

definition updateLocation :: "Board \<Rightarrow> Piece \<Rightarrow> Square \<Rightarrow> Piece" where
  "updateLocation b p square = recalculateValidMoves b (p\<lparr>location := square\<rparr>)"

definition cloneToAnotherBoard :: "Piece \<Rightarrow> Board \<Rightarrow> Piece" where
  "cloneToAnotherBoard p b = instantiate (type p) (color p) b (location p)"


section \<open>pieces.js: validation of a move\<close>

text \<open>The method of the base class: the target is a valid square among the candidates.\<close>

definition Piece_isMoveValid :: "Piece \<Rightarrow> Square \<Rightarrow> bool" where
  "Piece_isMoveValid p dest =
     (if \<not> isValid dest then False
      else length (filter (\<lambda>move. Square_equals move (Some dest)) (validMoves p)) > 0)"

text \<open>
  The last check of \<open>Pawn.isMoveValid\<close>: on rank 1 or 8 the promotion argument must be a
  string of one character out of \<open>QRBKN\<close>.  \<open>None\<close> is a missing argument.
\<close>

definition Pawn_promotionGiven :: "Square \<Rightarrow> jsstring option \<Rightarrow> bool" where
  "Pawn_promotionGiven dest ex =
     (if rankNumber dest = 1 \<or> rankNumber dest = 8 then
        (case ex of
           None \<Rightarrow> False
         | Some e \<Rightarrow>
             if e = [] \<or> length e \<noteq> 1 \<or> indexOf (str ''QRBKN'') e = - 1 then False else True)
      else True)"

definition Pawn_isMoveValid :: "Board \<Rightarrow> Piece \<Rightarrow> Square \<Rightarrow> jsstring option \<Rightarrow> bool" where
  "Pawn_isMoveValid b p dest ex =
     (if \<not> Piece_isMoveValid p dest then False
      else
        let advanceDirection = getAdvanceDirection p in
        if fileNumber (location p) = fileNumber dest then
          (if rankNumber (location p) + advanceDirection \<noteq> rankNumber dest \<and>
              (if rankNumber (location p) = 2 \<or> rankNumber (location p) = 7
               then rankNumber (location p) + advanceDirection * 2 \<noteq> rankNumber dest
               else True)
           then False
           else if getPiece b dest \<noteq> None then False
           else Pawn_promotionGiven dest ex)
        else if fileNumber dest = fileNumber (location p) - 1 \<or>
                fileNumber dest = fileNumber (location p) + 1 then
          (let capturedPiece =
                 (if Square_equals dest (map_option ref_square (enPassantSquare b))
                  then getPiece b (Square_new (fileNumber dest) (rankNumber (location p)))
                  else getPiece b dest)
           in
             if (case capturedPiece of None \<Rightarrow> True | Some cp \<Rightarrow> color cp = color p) then False
             else if rankNumber (location p) + advanceDirection \<noteq> rankNumber dest then False
             else Pawn_promotionGiven dest ex)
        else False)"

definition Rook_isMoveValid :: "Board \<Rightarrow> Piece \<Rightarrow> Square \<Rightarrow> bool" where
  "Rook_isMoveValid b p dest =
     (if \<not> Piece_isMoveValid p dest then False
      else isPathClear b (pathTo (location p) dest))"

definition Knight_isMoveValid :: "Piece \<Rightarrow> Square \<Rightarrow> bool" where
  "Knight_isMoveValid p dest = Piece_isMoveValid p dest"

definition Bishop_isMoveValid :: "Board \<Rightarrow> Piece \<Rightarrow> Square \<Rightarrow> bool" where
  "Bishop_isMoveValid b p dest =
     (if \<not> Piece_isMoveValid p dest then False
      else isPathClear b (pathTo (location p) dest))"

definition Queen_isMoveValid :: "Board \<Rightarrow> Piece \<Rightarrow> Square \<Rightarrow> bool" where
  "Queen_isMoveValid b p dest =
     (if \<not> Piece_isMoveValid p dest then False
      else isPathClear b (pathTo (location p) dest))"

text \<open>
  \<open>King.isMoveValid\<close> calls \<open>Board.isAttacked\<close>, which calls \<open>isMoveValid\<close> of every
  piece, the kings among them: the recursion has no bound of its own (a white king on H1
  with the long right and a black king on B1 with the short right ask each other for
  ever, until the call stack is exhausted).  The methods below take \<open>att\<close>, the method
  \<open>Board.isAttacked\<close> as it can be called with the call stack that is left; a result
  \<open>None\<close> is no normal return (an exception).
\<close>

type_synonym attacked = "Board \<Rightarrow> Square \<Rightarrow> Color option \<Rightarrow> bool option"

fun isInCheck_from :: "attacked \<Rightarrow> Board \<Rightarrow> Color \<Rightarrow> (jsstring \<times> Piece) list \<Rightarrow> bool option" where
  "isInCheck_from att b c [] = Some False"
| "isInCheck_from att b c ((k, p) # rest) =
     (if type p \<noteq> KING \<or> color p \<noteq> c then isInCheck_from att b c rest
      else
        (case att b (location p) (Some (swap c)) of
           None \<Rightarrow> None
         | Some True \<Rightarrow> Some True
         | Some False \<Rightarrow> isInCheck_from att b c rest))"

definition isInCheck :: "attacked \<Rightarrow> Board \<Rightarrow> Color \<Rightarrow> bool option" where
  "isInCheck att b c = isInCheck_from att b c (pieces b)"

definition validateCanCastle :: "attacked \<Rightarrow> Board \<Rightarrow> Piece \<Rightarrow> Piece option \<Rightarrow> bool option" where
  "validateCanCastle att b p rook =
     (if (color p = WHITE \<and> asString (location p) \<noteq> str ''E1'') \<or>
         (color p = BLACK \<and> asString (location p) \<noteq> str ''E8'') then Some False
      else
        (case rook of
           None \<Rightarrow> Some False
         | Some r \<Rightarrow>
             if color r \<noteq> color p \<or> type r \<noteq> ROOK then Some False
             else
               (case isInCheck att b (color p) of
                  None \<Rightarrow> None
                | Some True \<Rightarrow> Some False
                | Some False \<Rightarrow> Some (isPathClear b (pathTo (location p) (location r))))))"

definition canCastleShort :: "attacked \<Rightarrow> Board \<Rightarrow> Piece \<Rightarrow> bool option" where
  "canCastleShort att b p =
     (if \<not> flag (short (castlingRights b)) (color p) then Some False
      else
        (case att b (Square_of_letter (of_char CHR ''F'') (rankNumber (location p))) (Some (swap (color p))) of
           None \<Rightarrow> None
         | Some True \<Rightarrow> Some False
         | Some False \<Rightarrow>
             validateCanCastle att b p
               (getPiece b (Square_of_letter (of_char CHR ''H'') (rankNumber (location p))))))"

definition canCastleLong :: "attacked \<Rightarrow> Board \<Rightarrow> Piece \<Rightarrow> bool option" where
  "canCastleLong att b p =
     (if \<not> flag (long (castlingRights b)) (color p) then Some False
      else
        (case att b (Square_of_letter (of_char CHR ''D'') (rankNumber (location p))) (Some (swap (color p))) of
           None \<Rightarrow> None
         | Some True \<Rightarrow> Some False
         | Some False \<Rightarrow>
             validateCanCastle att b p
               (getPiece b (Square_of_letter (of_char CHR ''A'') (rankNumber (location p))))))"

definition King_isMoveValid :: "attacked \<Rightarrow> Board \<Rightarrow> Piece \<Rightarrow> Square \<Rightarrow> bool option" where
  "King_isMoveValid att b p dest =
     (if \<not> Piece_isMoveValid p dest then Some False
      else if fileNumber (location p) = fileNumber dest - 2 then canCastleShort att b p
      else if fileNumber (location p) = fileNumber dest + 2 then canCastleLong att b p
      else Some True)"

text \<open>The dispatch of \<open>isMoveValid\<close> on the class of the piece.\<close>

definition isMoveValid :: "attacked \<Rightarrow> Board \<Rightarrow> Piece \<Rightarrow> Square \<Rightarrow> jsstring option \<Rightarrow> bool option" where
  "isMoveValid att b p dest ex =
     (case type p of
        PAWN \<Rightarrow> Some (Pawn_isMoveValid b p dest ex)
      | ROOK \<Rightarrow> Some (Rook_isMoveValid b p dest)
      | KNIGHT \<Rightarrow> Some (Knight_isMoveValid p dest)
      | BISHOP \<Rightarrow> Some (Bishop_isMoveValid b p dest)
      | QUEEN \<Rightarrow> Some (Queen_isMoveValid b p dest)
      | KING \<Rightarrow> King_isMoveValid att b p dest)"

text \<open>
  \<open>Board.isAttacked\<close>: the inner loop runs over the candidate moves of one piece, the
  outer loop over the pieces; \<open>isAttacked n\<close> is the method with a call stack that holds
  \<open>n\<close> nested calls of it.
\<close>

fun isAttacked_by :: "attacked \<Rightarrow> Board \<Rightarrow> Square \<Rightarrow> Piece \<Rightarrow> Square list \<Rightarrow> bool option" where
  "isAttacked_by att b square p [] = Some False"
| "isAttacked_by att b square p (move # moves) =
     (if \<not> Square_equals move (Some square) then isAttacked_by att b square p moves
      else
        (case isMoveValid att b p move (Some (str ''Q'')) of
           None \<Rightarrow> None
         | Some False \<Rightarrow> isAttacked_by att b square p moves
         | Some True \<Rightarrow> Some True))"

fun isAttacked_from ::
  "attacked \<Rightarrow> Board \<Rightarrow> Square \<Rightarrow> Color option \<Rightarrow> (jsstring \<times> Piece) list \<Rightarrow> bool option" where
  "isAttacked_from att b square c [] = Some False"
| "isAttacked_from att b square c ((k, p) # rest) =
     (if c \<noteq> None \<and> c \<noteq> Some (color p) then isAttacked_from att b square c rest
      else
        (case isAttacked_by att b square p (validMoves p) of
           None \<Rightarrow> None
         | Some True \<Rightarrow> Some True
         | Some False \<Rightarrow> isAttacked_from att b square c rest))"

primrec isAttacked :: "nat \<Rightarrow> attacked" where
  "isAttacked 0 = (\<lambda>b square c. None)"
| "isAttacked (Suc n) = (\<lambda>b square c. isAttacked_from (isAttacked n) b square c (pieces b))"


section \<open>pieces.js: after a move\<close>

definition Piece_afterMove :: "Board \<Rightarrow> Board" where
  "Piece_afterMove b = b\<lparr>enPassantSquare := None\<rparr>"

text \<open>The \<open>switch\<close> on the promotion argument.\<close>

definition promotionType :: "jsstring option \<Rightarrow> Type" where
  "promotionType ex =
     (if ex = Some (str ''R'') then ROOK
      else if ex = Some (str ''B'') then BISHOP
      else if ex = Some (str ''K'') \<or> ex = Some (str ''N'') then KNIGHT
      else QUEEN)"

text \<open>
  \<open>Pawn.afterMove\<close>; \<open>a\<close> is the identity of the \<open>Square\<close> object that \<open>relative\<close>
  allocates for the new en passant square.
\<close>

definition Pawn_afterMove :: "nat \<Rightarrow> Board \<Rightarrow> Piece \<Rightarrow> Move \<Rightarrow> Board \<times> Move" where
  "Pawn_afterMove a b p move =
     (let advanceDirection = getAdvanceDirection p;
          enPassant = Square_equals (move_to move) (map_option ref_square (enPassantSquare b));
          b1 = (if enPassant
                then removePieceAt b
                       (Square_new (fileNumber (move_to move)) (rankNumber (move_from move)))
                else b);
          move1 = (if enPassant then move\<lparr>move_capture := True\<rparr> else move);
          b2 = Piece_afterMove b1;
          b3 = (if rankNumber (move_from move) + advanceDirection * 2 = rankNumber (move_to move)
                then b2\<lparr>enPassantSquare :=
                          Some \<lparr>ref_id = a,
                                ref_square = relative (move_from move) 0 advanceDirection\<rparr>\<rparr>
                else b2);
          b4 = (if rankNumber (move_to move) = 1 \<or> rankNumber (move_to move) = 8
                then
                  (let newPieceType = promotionType (move_extra move);
                       b' = removePieceAt b3 (move_to move)
                   in setPiece b' (instantiate newPieceType (color p) b' (move_to move)))
                else b3)
      in (b4, move1))"

definition Rook_afterMove :: "Board \<Rightarrow> Piece \<Rightarrow> Move \<Rightarrow> Board" where
  "Rook_afterMove b p move =
     (let b1 = Piece_afterMove b;
          b2 = (if fileNumber (move_from move) = 8
                then b1\<lparr>castlingRights := (castlingRights b1)
                         \<lparr>short := set_flag (short (castlingRights b1)) (color p) False\<rparr>\<rparr>
                else b1);
          b3 = (if fileNumber (move_from move) = 1
                then b2\<lparr>castlingRights := (castlingRights b2)
                         \<lparr>long := set_flag (long (castlingRights b2)) (color p) False\<rparr>\<rparr>
                else b2)
      in b3)"

text \<open>
  \<open>King.afterMove\<close>: \<open>None\<close> when there is no rook to relocate (a call on
  \<open>undefined\<close>).
\<close>

definition King_afterMove :: "Board \<Rightarrow> Piece \<Rightarrow> Move \<Rightarrow> Board option" where
  "King_afterMove b p move =
     (let b1 = Piece_afterMove b;
          rooks0 = None;
          rooks1 = (if fileNumber (move_to move) = fileNumber (move_from move) + 2
                    then Some (Square_new 8 (rankNumber (location p)),
                               Square_new 6 (rankNumber (location p)))
                    else rooks0);
          rooks2 = (if fileNumber (move_to move) = fileNumber (move_from move) - 2
                    then Some (Square_new 1 (rankNumber (location p)),
                               Square_new 4 (rankNumber (location p)))
                    else rooks1);
          revoke = (\<lambda>b'. b'\<lparr>castlingRights :=
                      \<lparr>long = set_flag (long (castlingRights b')) (color p) False,
                       short = set_flag (short (castlingRights b')) (color p) False\<rparr>\<rparr>)
      in
        (case rooks2 of
           None \<Rightarrow> Some (revoke b1)
         | Some (rookFrom, rookTo) \<Rightarrow>
             (case getPiece b1 rookFrom of
                None \<Rightarrow> None
              | Some rook \<Rightarrow>
                  (let b2 = removePieceAt b1 rookFrom;
                       rook' = updateLocation b2 rook rookTo
                   in Some (revoke (setPiece b2 rook'))))))"

text \<open>The dispatch of \<open>afterMove\<close> on the class of the piece.\<close>

definition afterMove :: "nat \<Rightarrow> Board \<Rightarrow> Piece \<Rightarrow> Move \<Rightarrow> (Board \<times> Move) option" where
  "afterMove a b p move =
     (case type p of
        PAWN \<Rightarrow> Some (Pawn_afterMove a b p move)
      | ROOK \<Rightarrow> Some (Rook_afterMove b p move, move)
      | KING \<Rightarrow> map_option (\<lambda>b'. (b', move)) (King_afterMove b p move)
      | _ \<Rightarrow> Some (Piece_afterMove b, move))"


section \<open>board.js\<close>

text \<open>\<open>this.setPiece(Pieces.Piece.instantiate(type, color, this, square))\<close>.\<close>

definition place :: "Board \<Rightarrow> Type \<Rightarrow> Color \<Rightarrow> Square \<Rightarrow> Board" where
  "place b t c square = setPiece b (instantiate t c b square)"

definition setupInitialPieces :: "Board \<Rightarrow> Color \<Rightarrow> Board" where
  "setupInitialPieces b c =
     (let rank = (if c = WHITE then 1 else 8);
          b1 = place b ROOK c (Square_new 1 rank);
          b2 = place b1 KNIGHT c (Square_new 2 rank);
          b3 = place b2 BISHOP c (Square_new 3 rank);
          b4 = place b3 QUEEN c (Square_new 4 rank);
          b5 = place b4 KING c (Square_new 5 rank);
          b6 = place b5 BISHOP c (Square_new 6 rank);
          b7 = place b6 KNIGHT c (Square_new 7 rank)
      in place b7 ROOK c (Square_new 8 rank))"

definition setupInitialPawns :: "Board \<Rightarrow> Color \<Rightarrow> Board" where
  "setupInitialPawns b c =
     (let rank = (if c = WHITE then 2 else 7)
      in foldl (\<lambda>b' file. place b' PAWN c (Square_new file rank)) b [1, 2, 3, 4, 5, 6, 7, 8])"

definition setupDefaultBoard :: "Board \<Rightarrow> Board" where
  "setupDefaultBoard b =
     (let b1 = b\<lparr>pieces := [],
                 castlingRights :=
                   \<lparr>long = \<lparr>white = True, black = True\<rparr>, short = \<lparr>white = True, black = True\<rparr>\<rparr>,
                 highlightedSquares := [],
                 lastMove := None,
                 enPassantSquare := None\<rparr>;
          b2 = setupInitialPieces b1 WHITE;
          b3 = setupInitialPieces b2 BLACK;
          b4 = setupInitialPawns b3 WHITE
      in setupInitialPawns b4 BLACK)"

text \<open>
  \<open>cloneBoard\<close>: \<open>None\<close> when the last move of the board refers to no piece (a read of
  \<open>location\<close> on \<open>undefined\<close>).  The new board has its own flags \<open>dirty\<close> and \<open>hash\<close>.
\<close>

definition cloneBoard :: "Board \<Rightarrow> Board option" where
  "cloneBoard b =
     (let nb0 = Board_new\<lparr>castlingRights :=
                   \<lparr>long = \<lparr>white = flag (long (castlingRights b)) WHITE,
                            black = flag (long (castlingRights b)) BLACK\<rparr>,
                    short = \<lparr>white = flag (short (castlingRights b)) WHITE,
                             black = flag (short (castlingRights b)) BLACK\<rparr>\<rparr>,
                 enPassantSquare := enPassantSquare b\<rparr>;
          nb1 = foldl (\<lambda>nb (loc, p).
                   nb\<lparr>pieces := AList.update loc (cloneToAnotherBoard p nb) (pieces nb)\<rparr>)
                 nb0 (pieces b);
          nb2 = nb1\<lparr>highlightedSquares := highlightedSquares b\<rparr>
      in
        (case lastMove b of
           None \<Rightarrow> Some (nb2\<lparr>lastMove := None\<rparr>)
         | Some m \<Rightarrow>
             (case move_piece m of
                None \<Rightarrow> None
              | Some mp \<Rightarrow>
                  Some (nb2\<lparr>lastMove :=
                    Some \<lparr>move_piece = getPiece nb2 (location mp),
                          move_from = move_from m,
                          move_to = move_to m,
                          move_capture = move_capture m,
                          move_extra = move_extra m\<rparr>\<rparr>))))"

definition recalculateAllPiecesMoves :: "Board \<Rightarrow> Board" where
  "recalculateAllPiecesMoves b =
     b\<lparr>pieces := map (\<lambda>(loc, p). (loc, recalculateValidMoves b p)) (pieces b)\<rparr>"

text \<open>
  \<open>makeMoveIfValid\<close> returns its boolean with the board as the call leaves it; \<open>None\<close> is
  an exception.
\<close>

definition makeMoveIfValid ::
  "attacked \<Rightarrow> nat \<Rightarrow> Board \<Rightarrow> Square \<Rightarrow> Square \<Rightarrow> jsstring option \<Rightarrow> (bool \<times> Board) option" where
  "makeMoveIfValid att a b src dest ex =
     (case getPiece b src of
        None \<Rightarrow> Some (False, b)
      | Some piece \<Rightarrow>
          (case isMoveValid att b piece dest ex of
             None \<Rightarrow> None
           | Some False \<Rightarrow> Some (False, b)
           | Some True \<Rightarrow>
               (let pieceAtDestination = getPiece b dest in
                if (case pieceAtDestination of None \<Rightarrow> False | Some d \<Rightarrow> color d = color piece)
                then Some (False, b)
                else
                  (let b1 = (if pieceAtDestination \<noteq> None then removePieceAt b dest else b);
                       b2 = removePieceAt b1 src;
                       piece' = updateLocation b2 piece dest;
                       b3 = setPiece b2 piece';
                       lastMove0 =
                         \<lparr>move_piece = Some piece',
                          move_from = src,
                          move_to = dest,
                          move_capture = (pieceAtDestination \<noteq> None),
                          move_extra = ex\<rparr>
                   in
                     (case afterMove a b3 piece' lastMove0 of
                        None \<Rightarrow> None
                      | Some (b4, lastMove1) \<Rightarrow>
                          Some (True,
                            (recalculateAllPiecesMoves b4)
                              \<lparr>lastMove := Some lastMove1,
                               highlightedSquares := [dest, src]\<rparr>))))))"

text \<open>
  \<open>getValidMovesFor\<close>: the inner loop over the candidate moves of one piece, the outer
  loop over the pieces; the result of the inner loop is appended to \<open>validMoves\<close>.
\<close>

fun getValidMovesFor_piece ::
  "attacked \<Rightarrow> nat \<Rightarrow> Board \<Rightarrow> Color \<Rightarrow> Piece \<Rightarrow> Square list \<Rightarrow> Move option list option" where
  "getValidMovesFor_piece att a b c p [] = Some []"
| "getValidMovesFor_piece att a b c p (move # moves) =
     (case cloneBoard b of
        None \<Rightarrow> None
      | Some board \<Rightarrow>
          (case makeMoveIfValid att a board (location p) move (Some (str ''Q'')) of
             None \<Rightarrow> None
           | Some (False, board') \<Rightarrow> getValidMovesFor_piece att a b c p moves
           | Some (True, board') \<Rightarrow>
               (case isInCheck att board' c of
                  None \<Rightarrow> None
                | Some True \<Rightarrow> getValidMovesFor_piece att a b c p moves
                | Some False \<Rightarrow>
                    map_option (\<lambda>found. lastMove board' # found)
                      (getValidMovesFor_piece att a b c p moves))))"

fun getValidMovesFor_from ::
  "attacked \<Rightarrow> nat \<Rightarrow> Board \<Rightarrow> Color \<Rightarrow> (jsstring \<times> Piece) list \<Rightarrow> Move option list option" where
  "getValidMovesFor_from att a b c [] = Some []"
| "getValidMovesFor_from att a b c ((loc, p) # rest) =
     (if color p \<noteq> c then getValidMovesFor_from att a b c rest
      else
        (case getValidMovesFor_piece att a b c p (validMoves p) of
           None \<Rightarrow> None
         | Some found \<Rightarrow>
             map_option (\<lambda>found'. found @ found') (getValidMovesFor_from att a b c rest)))"

definition getValidMovesFor :: "attacked \<Rightarrow> nat \<Rightarrow> Board \<Rightarrow> Color \<Rightarrow> Move option list option" where
  "getValidMovesFor att a b c = getValidMovesFor_from att a b c (pieces b)"

definition getPiecesCountByType :: "Board \<Rightarrow> Color \<Rightarrow> Type \<Rightarrow> int" where
  "getPiecesCountByType b c =
     foldl (\<lambda>count (loc, p). if color p = c then count(type p := count (type p) + 1) else count)
       (\<lambda>t. 0) (pieces b)"

definition getMaterialCount :: "Board \<Rightarrow> Color \<Rightarrow> int" where
  "getMaterialCount b c =
     (let count = getPiecesCountByType b c
      in count QUEEN * 9 + count ROOK * 5 + count BISHOP * 3 + count KNIGHT * 3 + count PAWN)"

definition pieceTypeId :: "Type \<Rightarrow> int" where
  "pieceTypeId t =
     (case t of PAWN \<Rightarrow> 1 | KNIGHT \<Rightarrow> 2 | ROOK \<Rightarrow> 3 | BISHOP \<Rightarrow> 4 | QUEEN \<Rightarrow> 5 | KING \<Rightarrow> 6)"

text \<open>
  \<open>calculateHash\<close> returns the hash with the board, whose cache it fills.  The two loops
  run over \<open>rank\<close> and \<open>file\<close> from 1 to 8 and look up \<open>new Square(rank, file)\<close>; each
  piece found overwrites the hash.
\<close>

definition calculateHash :: "Board \<Rightarrow> jsstring \<times> Board" where
  "calculateHash b =
     (if \<not> dirty b then (hash b, b)
      else
        (let h = foldl (\<lambda>h (rank, file).
                   (case map_of (pieces b) (asString (Square_new rank file)) of
                      None \<Rightarrow> h
                    | Some p \<Rightarrow>
                        (let pieceColorId = (if color p = WHITE then 1 else 2)
                         in toInt32 (31 * (128 * pieceTypeId (type p) + 64 * pieceColorId +
                              rankNumber (location p) * 8 + fileNumber (location p))))))
                 7 (concat (map (\<lambda>rank. map (\<lambda>file. (rank, file)) [1 .. 8]) [1 .. 8]));
             s = Number_toString h
         in (s, b\<lparr>dirty := False, hash := s\<rparr>)))"

text \<open>
  \<open>Board.equals\<close>: the loop runs over the pieces of \<open>this\<close> board only.  A key of
  \<open>_pieces\<close> always has a piece (\<open>removePieceAt\<close> deletes the key), so the branch of
  the loop for a missing \<open>p1\<close> is never taken.
\<close>

fun equals_from :: "Board \<Rightarrow> (jsstring \<times> Piece) list \<Rightarrow> bool" where
  "equals_from other [] = True"
| "equals_from other ((loc, p1) # rest) =
     (case map_of (pieces other) loc of
        None \<Rightarrow> False
      | Some p2 \<Rightarrow>
          if color p1 \<noteq> color p2 \<or> type p1 \<noteq> type p2 then False
          else equals_from other rest)"

definition Board_equals :: "Board \<Rightarrow> Board \<Rightarrow> bool" where
  "Board_equals this other =
     (if enPassantSquare other \<noteq> enPassantSquare this \<or>
         flag (short (castlingRights other)) WHITE \<noteq> flag (short (castlingRights this)) WHITE \<or>
         flag (short (castlingRights other)) BLACK \<noteq> flag (short (castlingRights this)) BLACK \<or>
         flag (long (castlingRights other)) WHITE \<noteq> flag (long (castlingRights this)) WHITE \<or>
         flag (long (castlingRights other)) BLACK \<noteq> flag (long (castlingRights this)) BLACK
      then False
      else equals_from other (pieces this))"


section \<open>game.js\<close>

datatype MoveResult =
  MOVE_OK | NO_PIECE | NOT_YOUR_PIECE | ILLEGAL_PIECE_MOVE | IN_CHECK_AFTER_TURN | GAME_ENDED

datatype Result =
  ONGOING | WHITE_MATED | BLACK_MATED | WHITE_RESIGNED | BLACK_RESIGNED | WHITE_FLAGGED |
  BLACK_FLAGGED | STALEMATED | INSUFFICIENT_MATERIAL | THREEFOLD_REPETITION | FIFTY_MOVES |
  DRAW_AGREED

record GameState =
  board :: Board
  halfMoveClock :: int
  currentTurn :: Color
  whiteOffersDraw :: bool
  blackOffersDraw :: bool

record Game =
  currentState :: GameState
  stateHistory :: "GameState list"
  result :: Result

definition reset :: Game where
  "reset =
     \<lparr>currentState =
        \<lparr>board = setupDefaultBoard Board_new,
         halfMoveClock = 0,
         currentTurn = WHITE,
         whiteOffersDraw = False,
         blackOffersDraw = False\<rparr>,
      stateHistory = [],
      result = ONGOING\<rparr>"

definition isConcluded :: "Game \<Rightarrow> bool" where
  "isConcluded g = (result g \<noteq> ONGOING)"

text \<open>
  \<open>takebackMove\<close> returns \<open>false\<close> (\<open>Some False\<close>) or, past its guard, nothing
  (\<open>undefined\<close>, \<open>None\<close>), with the game as the call leaves it.
\<close>

definition takebackMove :: "Game \<Rightarrow> bool option \<times> Game" where
  "takebackMove g =
     (if result g \<noteq> ONGOING \<or> length (stateHistory g) = 0 then (Some False, g)
      else
        (let popped = last (stateHistory g)
         in (None,
             g\<lparr>stateHistory := butlast (stateHistory g),
               currentState := popped\<lparr>board := recalculateAllPiecesMoves (board popped)\<rparr>\<rparr>)))"

definition resign :: "Game \<Rightarrow> Color \<Rightarrow> bool \<times> Game" where
  "resign g c =
     (if isConcluded g then (False, g)
      else (True, g\<lparr>result := (if c = WHITE then WHITE_RESIGNED else BLACK_RESIGNED)\<rparr>))"

definition offerDraw :: "Game \<Rightarrow> Color \<Rightarrow> bool \<times> Game" where
  "offerDraw g c =
     (if isConcluded g then (False, g)
      else
        (let s1 = (if c = WHITE then (currentState g)\<lparr>whiteOffersDraw := True\<rparr>
                   else currentState g);
             s2 = (if c = BLACK then s1\<lparr>blackOffersDraw := True\<rparr> else s1);
             g1 = g\<lparr>currentState := s2\<rparr>
         in (True,
             if whiteOffersDraw s2 \<and> blackOffersDraw s2 then g1\<lparr>result := DRAW_AGREED\<rparr>
             else g1)))"

definition validateHasSufficientMaterial :: "Game \<Rightarrow> Color \<Rightarrow> bool" where
  "validateHasSufficientMaterial g side =
     (let count = getPiecesCountByType (board (currentState g)) side in
      if count ROOK \<noteq> 0 \<or> count QUEEN \<noteq> 0 \<or> count PAWN \<noteq> 0 then True
      else
        (let amountOfBishops = count BISHOP;
             amountOfKnights = count KNIGHT
         in
           if amountOfBishops \<ge> 2 then True
           else if amountOfKnights \<ge> 3 then True
           else amountOfBishops \<ge> 1 \<and> amountOfKnights \<ge> 1))"

definition checkForInsufficientMaterial :: "Game \<Rightarrow> bool" where
  "checkForInsufficientMaterial g =
     (\<not> validateHasSufficientMaterial g WHITE \<and> \<not> validateHasSufficientMaterial g BLACK)"

text \<open>
  \<open>checkForThreefoldRepetition\<close> fills the hash caches of the boards it visits, so it
  returns its boolean with the game.  \<open>threefold_forEach\<close> is the \<open>forEach\<close> over the
  history, with the counter.
\<close>

fun threefold_forEach ::
  "jsstring \<Rightarrow> Board \<Rightarrow> int \<Rightarrow> GameState list \<Rightarrow> int \<times> GameState list" where
  "threefold_forEach currentHash cur amount [] = (amount, [])"
| "threefold_forEach currentHash cur amount (other # rest) =
     (let (otherHash, ob) = calculateHash (board other);
          amount' =
            (if currentHash \<noteq> otherHash then amount
             else if \<not> Board_equals cur ob then amount
             else amount + 1);
          (amount'', rest') = threefold_forEach currentHash cur amount' rest
      in (amount'', other\<lparr>board := ob\<rparr> # rest'))"

definition checkForThreefoldRepetition :: "Game \<Rightarrow> bool \<times> Game" where
  "checkForThreefoldRepetition g =
     (let (currentHash, cb) = calculateHash (board (currentState g));
          (amountOfPreviousSamePositions, history) =
             threefold_forEach currentHash cb 1 (stateHistory g)
      in (amountOfPreviousSamePositions \<ge> 3,
          g\<lparr>currentState := (currentState g)\<lparr>board := cb\<rparr>, stateHistory := history\<rparr>))"

definition checkForFiftyMoveRuleViolation :: "Game \<Rightarrow> bool" where
  "checkForFiftyMoveRuleViolation g = (halfMoveClock (currentState g) \<ge> 50)"

text \<open>
  The end of \<open>makeMove\<close>, from the call of \<open>getValidMovesFor\<close> on: the chain of
  conditions that sets the result of the game.
\<close>

definition concludeMove :: "attacked \<Rightarrow> nat \<Rightarrow> Game \<Rightarrow> Game option" where
  "concludeMove att a g =
     (case getValidMovesFor att a (board (currentState g)) (currentTurn (currentState g)) of
        None \<Rightarrow> None
      | Some moves \<Rightarrow>
          if length moves = 0 then
            (case isInCheck att (board (currentState g)) (currentTurn (currentState g)) of
               None \<Rightarrow> None
             | Some True \<Rightarrow>
                 Some (g\<lparr>result := (if currentTurn (currentState g) = WHITE then WHITE_MATED
                                     else BLACK_MATED)\<rparr>)
             | Some False \<Rightarrow> Some (g\<lparr>result := STALEMATED\<rparr>))
          else if checkForInsufficientMaterial g then Some (g\<lparr>result := INSUFFICIENT_MATERIAL\<rparr>)
          else
            (let (threefold, g') = checkForThreefoldRepetition g in
             if threefold then Some (g'\<lparr>result := THREEFOLD_REPETITION\<rparr>)
             else if checkForFiftyMoveRuleViolation g' then Some (g'\<lparr>result := FIFTY_MOVES\<rparr>)
             else Some g'))"

text \<open>
  \<open>makeMove\<close> returns its outcome with the game as the call leaves it; \<open>None\<close> is an
  exception.  \<open>a\<close> is the identity of the \<open>Square\<close> object a pawn move allocates.
\<close>

definition makeMove ::
  "attacked \<Rightarrow> nat \<Rightarrow> Game \<Rightarrow> Square \<Rightarrow> Square \<Rightarrow> jsstring option \<Rightarrow> (MoveResult \<times> Game) option" where
  "makeMove att a g src dest ex =
     (if result g \<noteq> ONGOING then Some (GAME_ENDED, g)
      else
        (case getPiece (board (currentState g)) src of
           None \<Rightarrow> Some (NO_PIECE, g)
         | Some piece \<Rightarrow>
             if color piece \<noteq> currentTurn (currentState g) then Some (NOT_YOUR_PIECE, g)
             else
               (case cloneBoard (board (currentState g)) of
                  None \<Rightarrow> None
                | Some newBoard \<Rightarrow>
                    (case makeMoveIfValid att a newBoard (location piece) dest ex of
                       None \<Rightarrow> None
                     | Some (False, newBoard') \<Rightarrow> Some (ILLEGAL_PIECE_MOVE, g)
                     | Some (True, newBoard') \<Rightarrow>
                         (case isInCheck att newBoard' (currentTurn (currentState g)) of
                            None \<Rightarrow> None
                          | Some True \<Rightarrow> Some (IN_CHECK_AFTER_TURN, g)
                          | Some False \<Rightarrow>
                              (let previousState = currentState g;
                                   g1 = g\<lparr>stateHistory := stateHistory g @ [previousState],
                                          currentState :=
                                            \<lparr>board = newBoard',
                                             halfMoveClock = halfMoveClock previousState + 1,
                                             currentTurn = swap (currentTurn previousState),
                                             whiteOffersDraw = False,
                                             blackOffersDraw = False\<rparr>\<rparr>
                               in
                                 (case lastMove (board (currentState g1)) of
                                    None \<Rightarrow> None
                                  | Some lm \<Rightarrow>
                                      (case (if move_capture lm then Some True
                                             else map_option (\<lambda>mp. type mp = PAWN) (move_piece lm)) of
                                         None \<Rightarrow> None
                                       | Some progress \<Rightarrow>
                                           (let g2 = (if progress
                                                      then g1\<lparr>currentState :=
                                                             (currentState g1)\<lparr>halfMoveClock := 0\<rparr>\<rparr>
                                                      else g1)
                                            in map_option (\<lambda>g3. (MOVE_OK, g3))
                                                 (concludeMove att a g2))))))))))"


section \<open>Notions of the specification and example positions\<close>

text \<open>
  The number of pieces of a color and a type on a board, and the rule of the specification
  for sufficient material: any rook, queen or pawn, or two bishops, or three knights, or a
  bishop together with a knight.
\<close>

definition countOf :: "Board \<Rightarrow> Color \<Rightarrow> Type \<Rightarrow> nat" where
  "countOf b c t = length (filter (\<lambda>(loc, p). color p = c \<and> type p = t) (pieces b))"

definition sufficientMaterial_spec :: "Board \<Rightarrow> Color \<Rightarrow> bool" where
  "sufficientMaterial_spec b c =
     (countOf b c ROOK > 0 \<or> countOf b c QUEEN > 0 \<or> countOf b c PAWN > 0 \<or>
      countOf b c BISHOP \<ge> 2 \<or> countOf b c KNIGHT \<ge> 3 \<or>
      (countOf b c BISHOP \<ge> 1 \<and> countOf b c KNIGHT \<ge> 1))"

text \<open>
  Two boards that differ in the cached hash only, and two game states whose boards do.
  \<open>calculateHash\<close> changes nothing else.
\<close>

definition cacheVariant :: "Board \<Rightarrow> Board \<Rightarrow> bool" where
  "cacheVariant b b' = (\<exists>d h. b' = b\<lparr>dirty := d, hash := h\<rparr>)"

definition stateVariant :: "GameState \<Rightarrow> GameState \<Rightarrow> bool" where
  "stateVariant s s' = (\<exists>b'. cacheVariant (board s) b' \<and> s' = s\<lparr>board := b'\<rparr>)"

text \<open>
  The game as \<open>makeMove\<close> has it when it starts to look for the end of the game: the old
  state pushed onto the history, the new state with the board \<open>nb\<close> of the move \<open>lm\<close>.
\<close>

definition installed :: "Game \<Rightarrow> Board \<Rightarrow> Move \<Rightarrow> Game" where
  "installed g nb lm =
     g\<lparr>stateHistory := stateHistory g @ [currentState g],
       currentState :=
         \<lparr>board = nb,
          halfMoveClock =
            (if move_capture lm \<or> map_option type (move_piece lm) = Some PAWN then 0
             else halfMoveClock (currentState g) + 1),
          currentTurn = swap (currentTurn (currentState g)),
          whiteOffersDraw = False,
          blackOffersDraw = False\<rparr>\<rparr>"

text \<open>
  One way of calling \<open>Board.isAttacked\<close> returns whatever another one returns (it has
  at least as much call stack left).
\<close>

definition att_le :: "attacked \<Rightarrow> attacked \<Rightarrow> bool" where
  "att_le f g = (\<forall>b sq c r. f b sq c = Some r \<longrightarrow> g b sq c = Some r)"

text \<open>
  The keys of \<open>_pieces\<close> are the properties of an object: no key occurs twice.  Every
  piece stands on a square of the board and is kept under the name of that square.  A
  game keeps both on its board and on the boards of its history, and so does every game
  that the operations of \<open>Game\<close> make of a new game.
\<close>

definition distinctKeys :: "Board \<Rightarrow> bool" where
  "distinctKeys b = distinct (map fst (pieces b))"

definition placedKeys :: "Board \<Rightarrow> bool" where
  "placedKeys b =
     list_all (\<lambda>(k, p). isValid (location p) \<and> k = asString (location p)) (pieces b)"

definition wellKeyed :: "Board \<Rightarrow> bool" where
  "wellKeyed b = (distinctKeys b \<and> placedKeys b)"

definition gameKeys :: "Game \<Rightarrow> bool" where
  "gameKeys g =
     (wellKeyed (board (currentState g)) \<and>
      list_all (\<lambda>s. wellKeyed (board s)) (stateHistory g))"

inductive reachable :: "Game \<Rightarrow> bool" where
  start: "reachable reset"
| move: "reachable g \<Longrightarrow> makeMove (isAttacked n) a g src dest ex = Some (r, g') \<Longrightarrow> reachable g'"
| takeback: "reachable g \<Longrightarrow> takebackMove g = (t, g') \<Longrightarrow> reachable g'"
| resigned: "reachable g \<Longrightarrow> resign g c = (t', g') \<Longrightarrow> reachable g'"
| offered: "reachable g \<Longrightarrow> offerDraw g c = (t', g') \<Longrightarrow> reachable g'"

text \<open>An ongoing game on a given board, with the side to move and the half-move clock.\<close>

definition gameOn :: "Board \<Rightarrow> Color \<Rightarrow> int \<Rightarrow> Game" where
  "gameOn b c clock =
     \<lparr>currentState = \<lparr>board = b, halfMoveClock = clock, currentTurn = c,
                       whiteOffersDraw = False, blackOffersDraw = False\<rparr>,
      stateHistory = [], result = ONGOING\<rparr>"

text \<open>The two kings on E1 and E8, without castling rights.\<close>

definition kings :: Board where
  "kings = place (place Board_new KING WHITE (Square_new 5 1)) KING BLACK (Square_new 5 8)"

text \<open>The kings and a white rook on A1.\<close>

definition rookEnding :: Board where
  "rookEnding = place kings ROOK WHITE (Square_new 1 1)"

text \<open>The kings and a white pawn on A7.\<close>

definition promotionBoard :: Board where
  "promotionBoard = place kings PAWN WHITE (Square_new 1 7)"

text \<open>The kings, a white pawn on E2 and a black knight in front of it on E3.\<close>

definition blockedPawn :: Board where
  "blockedPawn = place (place kings PAWN WHITE (Square_new 5 2)) KNIGHT BLACK (Square_new 5 3)"

text \<open>White king E1, black rook D2 next to it and unprotected, black king H8.\<close>

definition rookEnPrise :: Board where
  "rookEnPrise =
     place (place (place Board_new KING WHITE (Square_new 5 1)) ROOK BLACK (Square_new 4 2))
       KING BLACK (Square_new 8 8)"

text \<open>The call of \<open>makeMove\<close> with which the white king takes that rook.\<close>

definition rookTaken :: "(MoveResult \<times> Game) option" where
  "rookTaken =
     makeMove (isAttacked 3) 0 (gameOn rookEnPrise WHITE 0) (Square_new 5 1) (Square_new 4 2) None"

text \<open>White king F7 and queen G5, black king H8: the queen mates on G7.\<close>

definition queenMate :: Board where
  "queenMate =
     place (place (place Board_new KING WHITE (Square_new 6 7)) QUEEN WHITE (Square_new 7 5))
       KING BLACK (Square_new 8 8)"

text \<open>
  White king E1 and rook H1 with the short castling right, black rook G8 and king A8: the
  rook looks down the open G file at G1.
\<close>

definition castleBoard :: Board where
  "castleBoard =
     place (place (place (place
       (Board_new\<lparr>castlingRights :=
          \<lparr>long = \<lparr>white = False, black = False\<rparr>, short = \<lparr>white = True, black = False\<rparr>\<rparr>\<rparr>)
       KING WHITE (Square_new 5 1)) ROOK WHITE (Square_new 8 1))
       ROOK BLACK (Square_new 7 8)) KING BLACK (Square_new 1 8)"

text \<open>
  White king E1 and rook H1 with the short castling right, black king A8, and a black
  pawn: on G2, in front of the square G1, or on E2, beside the square F1.
\<close>

definition castleBase :: Board where
  "castleBase =
     place (place (place
       (Board_new\<lparr>castlingRights :=
          \<lparr>long = \<lparr>white = False, black = False\<rparr>, short = \<lparr>white = True, black = False\<rparr>\<rparr>\<rparr>)
       KING WHITE (Square_new 5 1)) ROOK WHITE (Square_new 8 1)) KING BLACK (Square_new 1 8)"

definition castlePawnG2 :: Board where
  "castlePawnG2 = place castleBase PAWN BLACK (Square_new 7 2)"

definition castlePawnE2 :: Board where
  "castlePawnE2 = place castleBase PAWN BLACK (Square_new 5 2)"

text \<open>
  White king E1 with the short castling right and a white rook on G1, not on H1; black
  king A8.
\<close>

definition castleRookG1 :: Board where
  "castleRookG1 =
     place (place (place
       (Board_new\<lparr>castlingRights :=
          \<lparr>long = \<lparr>white = False, black = False\<rparr>, short = \<lparr>white = True, black = False\<rparr>\<rparr>\<rparr>)
       KING WHITE (Square_new 5 1)) ROOK WHITE (Square_new 7 1)) KING BLACK (Square_new 1 8)"

text \<open>
  Calls of \<open>makeMove\<close> one after the other, each with the identity \<open>a\<close> for its new
  object and each successful, none of them the move of a pawn or onto an occupied
  square.
\<close>

fun quietMoves ::
  "attacked \<Rightarrow> Game \<Rightarrow> (nat \<times> Square \<times> Square \<times> jsstring option) list \<Rightarrow> Game option" where
  "quietMoves att g [] = Some g"
| "quietMoves att g ((a, src, dest, ex) # ms) =
     (case getPiece (board (currentState g)) src of
        None \<Rightarrow> None
      | Some piece \<Rightarrow>
          if type piece = PAWN \<or> getPiece (board (currentState g)) dest \<noteq> None then None
          else
            (case makeMove att a g src dest ex of
               None \<Rightarrow> None
             | Some (r, g') \<Rightarrow> if r = MOVE_OK then quietMoves att g' ms else None))"

text \<open>
  White king H1 with the long castling right, black king B1 with the short one: each
  king has the square two files away among its candidates.
\<close>

definition askingKings :: Board where
  "askingKings =
     place (place
       (Board_new\<lparr>castlingRights :=
          \<lparr>long = \<lparr>white = True, black = False\<rparr>, short = \<lparr>white = False, black = True\<rparr>\<rparr>\<rparr>)
       KING WHITE (Square_new 8 1)) KING BLACK (Square_new 2 1)"


section \<open>Basic facts\<close>

lemma Square_equals_Some [simp]: "Square_equals s (Some t) = (s = t)"
  by (cases s; cases t) (simp add: Square_equals_def)

lemma Square_equals_None [simp]: "Square_equals s None = False"
  by (simp add: Square_equals_def)

lemma Square_new_simps:
  "fileNumber (Square_new f r) = f" "rankNumber (Square_new f r) = r"
  "(Square_new f r = Square_new f' r') = (f = f' \<and> r = r')"
  "isValid (Square_new f r) = (r \<ge> 1 \<and> f \<ge> 1 \<and> r \<le> 8 \<and> f \<le> 8)"
  by (auto simp: Square_new_def isValid_def)

lemma digits_small: "n < 10 \<Longrightarrow> digits n = [nat (48 + n)]"
  by (simp add: digits.simps)

lemma asString_valid:
  "isValid s \<Longrightarrow> asString s = [nat (64 + fileNumber s), nat (48 + rankNumber s)]"
  by (auto simp: asString_def getFileLetter_def Number_toString_def isValid_def digits_small)

lemma asString_home:
  assumes "isValid s" "asString s = (if c = WHITE then str ''E1'' else str ''E8'')"
  shows "s = Square_new 5 (if c = WHITE then 1 else 8)"
  using assms
  by (cases s) (auto simp: asString_valid str_def Square_new_def isValid_def split: if_splits)

text \<open>The exception of \<open>getRelativesUntilInvalid\<close> is out of reach of its callers.\<close>

lemma ray_def2: "fr \<noteq> 0 \<or> rr \<noteq> 0 \<Longrightarrow> ray s fr rr = relativesLoop s fr rr"
  by (auto simp: ray_def getRelativesUntilInvalid_def)

lemma pathTo_short:
  "r = 1 \<or> r = 8 \<Longrightarrow>
   pathTo (Square_new 5 r) (Square_new 8 r) = [Square_new 6 r, Square_new 7 r]"
  by (auto simp: pathTo_def Let_def ray_def2 relativesLoop.simps relative_def isValid_def
        Square_new_def)

lemma pathTo_long:
  "r = 1 \<or> r = 8 \<Longrightarrow>
   pathTo (Square_new 5 r) (Square_new 1 r) = [Square_new 4 r, Square_new 3 r, Square_new 2 r]"
  by (auto simp: pathTo_def Let_def ray_def2 relativesLoop.simps relative_def isValid_def
        Square_new_def)

lemma Piece_isMoveValid_iff:
  "Piece_isMoveValid p dest = (isValid dest \<and> dest \<in> set (validMoves p))"
  by (auto simp: Piece_isMoveValid_def filter_empty_conv)

lemma recalculateValidMoves_fields [simp]:
  "location (recalculateValidMoves b p) = location p"
  "color (recalculateValidMoves b p) = color p"
  "type (recalculateValidMoves b p) = type p"
  by (auto simp: recalculateValidMoves_def Pawn_recalculateValidMoves_def
        Rook_recalculateValidMoves_def Knight_recalculateValidMoves_def
        Bishop_recalculateValidMoves_def Queen_recalculateValidMoves_def
        King_recalculateValidMoves_def removeInvalidMoves_def Let_def split: Type.splits)

lemma instantiate_fields [simp]:
  "location (instantiate t c b sq) = sq" "color (instantiate t c b sq) = c"
  "type (instantiate t c b sq) = t"
  by (simp_all add: instantiate_def)

lemma getPiece_setPiece_same [simp]: "getPiece (setPiece b p) (location p) = Some p"
  by (simp add: getPiece_def setPiece_def update_conv)

lemma eval_ok: "map_option fst x = Some MOVE_OK \<Longrightarrow> x = Some (MOVE_OK, snd (the x))"
  by (cases x) auto


section \<open>Squares\<close>

text \<open>
  C9, as the code has it: \<open>Square.fromString\<close> accepts exactly the strings of two code
  units, an upper-case file letter \<open>A\<close> to \<open>H\<close> followed by a rank digit \<open>1\<close> to \<open>8\<close>,
  and returns the square with that file and rank; every other string, a lower-case file
  letter included, yields \<open>undefined\<close>.
\<close>

theorem fromString_accepts_exactly:
  "fromString s =
     (if length s = 2 \<and> of_char CHR ''A'' \<le> s ! 0 \<and> s ! 0 \<le> of_char CHR ''H'' \<and>
         of_char CHR ''1'' \<le> s ! 1 \<and> s ! 1 \<le> of_char CHR ''8''
      then Some (Square_new (int (s ! 0) - 64) (int (s ! 1) - 48)) else None)"
  by (auto simp: fromString_def isValid_def Square_new_def Let_def)

theorem fromString_accepts_exactly_witness:
  "fromString (str ''E4'') = Some (Square_new 5 4) \<and> fromString (str ''E9'') = None \<and>
   fromString (str ''E44'') = None"
  using fromString_accepts_exactly [of "str ''E4''"] fromString_accepts_exactly [of "str ''E9''"]
    fromString_accepts_exactly [of "str ''E44''"]
  by (simp add: str_def)

text \<open>
  C9 as stated asks for a case-insensitive parser; the lower-case spelling of a square is
  rejected.
\<close>

theorem fromString_lowercase_counterexample:
  "fromString (str ''e4'') = None"
  by (simp add: fromString_def str_def isValid_def Square_new_def)


section \<open>Pawns\<close>

text \<open>
  C10: a pawn on its starting rank (rank 2 for White, rank 7 for Black), with its
  candidate moves calculated there, may advance two squares whenever the destination is
  empty.  Nothing is asked of the square it passes over.
\<close>

theorem Pawn_double_advance:
  assumes "isValid (location p)"
    and "(color p = WHITE \<and> rankNumber (location p) = 2) \<or>
         (color p = BLACK \<and> rankNumber (location p) = 7)"
    and "getPiece b (relative (location p) 0 (getAdvanceDirection p * 2)) = None"
  shows "Pawn_isMoveValid b (Pawn_recalculateValidMoves p)
           (relative (location p) 0 (getAdvanceDirection p * 2)) ex = True"
  using assms
  by (auto simp: Pawn_isMoveValid_def Pawn_recalculateValidMoves_def Piece_isMoveValid_iff
        removeInvalidMoves_def getAdvanceDirection_def relative_def Square_new_def isValid_def
        Pawn_promotionGiven_def Let_def)

text \<open>The white pawn on E2 jumps over the knight on E3.\<close>

theorem Pawn_double_advance_witness:
  "getPiece blockedPawn (Square_new 5 2) = Some (instantiate PAWN WHITE Board_new (Square_new 5 2)) \<and>
   getPiece blockedPawn (Square_new 5 3) \<noteq> None \<and>
   Pawn_isMoveValid blockedPawn (instantiate PAWN WHITE Board_new (Square_new 5 2))
     (Square_new 5 4) None = True"
proof -
  let ?p = "\<lparr>validMoves = [], type = PAWN, color = WHITE, location = Square_new 5 2\<rparr>"
  have 1: "isValid (location ?p)" by (simp add: isValid_def Square_new_def)
  have 2: "(color ?p = WHITE \<and> rankNumber (location ?p) = 2) \<or>
           (color ?p = BLACK \<and> rankNumber (location ?p) = 7)" by (simp add: Square_new_def)
  have 3: "getPiece blockedPawn (relative (location ?p) 0 (getAdvanceDirection ?p * 2)) = None"
    by code_simp
  have 4: "getPiece blockedPawn (Square_new 5 2) =
             Some (instantiate PAWN WHITE Board_new (Square_new 5 2))"
    by code_simp
  have 5: "getPiece blockedPawn (Square_new 5 3) \<noteq> None" by code_simp
  have 6: "relative (location ?p) 0 (getAdvanceDirection ?p * 2) = Square_new 5 4"
    by (simp add: relative_def Square_new_def getAdvanceDirection_def)
  have 7: "Pawn_recalculateValidMoves ?p = instantiate PAWN WHITE Board_new (Square_new 5 2)"
    by (simp add: instantiate_def recalculateValidMoves_def)
  show ?thesis
    using Pawn_double_advance [OF 1 2 3, of None] 4 5 6 7 by simp
qed

lemma promotion_arg:
  "(case ex of None \<Rightarrow> False
    | Some e \<Rightarrow> if e = [] \<or> length e \<noteq> 1 \<or> indexOf (str ''QRBKN'') e = - 1 then False else True)
   = (ex \<in> {Some (str ''Q''), Some (str ''R''), Some (str ''B''), Some (str ''K''), Some (str ''N'')})"
proof (cases ex)
  case None
  then show ?thesis by simp
next
  case (Some e)
  show ?thesis
  proof (cases "length e = 1")
    case True
    then obtain c where "e = [c]" by (cases e) auto
    then show ?thesis using Some by (auto simp: indexOf_def str_def)
  next
    case False
    then show ?thesis using Some by (auto simp: str_def)
  qed
qed

lemma Pawn_promotionGiven_iff:
  "rankNumber dest = 1 \<or> rankNumber dest = 8 \<Longrightarrow>
   Pawn_promotionGiven dest ex =
     (ex \<in> {Some (str ''Q''), Some (str ''R''), Some (str ''B''), Some (str ''K''), Some (str ''N'')})"
  unfolding Pawn_promotionGiven_def using promotion_arg [of ex] by auto

text \<open>
  C2, as the code has it: a pawn move onto rank 1 or rank 8 that is valid with the
  promotion argument \<open>Q\<close> is accepted exactly when the argument is given and is one of
  \<open>Q\<close>, \<open>R\<close>, \<open>B\<close>, \<open>K\<close>, \<open>N\<close>; a missing argument is rejected, there is no default.
  \<open>afterMove\<close> then puts a piece of the color of the pawn on the destination: a rook for
  \<open>R\<close>, a bishop for \<open>B\<close>, a knight for \<open>K\<close> and for \<open>N\<close>, a queen otherwise.
\<close>

theorem Pawn_promotion:
  assumes "rankNumber dest = 1 \<or> rankNumber dest = 8"
  shows "Pawn_isMoveValid b p dest ex =
           (Pawn_isMoveValid b p dest (Some (str ''Q'')) \<and>
            ex \<in> {Some (str ''Q''), Some (str ''R''), Some (str ''B''), Some (str ''K''),
                   Some (str ''N'')}) \<and>
         (move_to move = dest \<longrightarrow>
            (\<exists>q. getPiece (fst (Pawn_afterMove a b p move)) dest = Some q \<and>
                 color q = color p \<and> location q = dest \<and>
                 type q =
                   (if move_extra move = Some (str ''R'') then ROOK
                    else if move_extra move = Some (str ''B'') then BISHOP
                    else if move_extra move = Some (str ''K'') \<or> move_extra move = Some (str ''N'')
                    then KNIGHT
                    else QUEEN)))"
proof -
  have q: "Pawn_promotionGiven dest (Some (str ''Q''))"
    using Pawn_promotionGiven_iff [OF assms, of "Some (str ''Q'')"] by simp
  have "Pawn_isMoveValid b p dest ex =
          (Pawn_isMoveValid b p dest (Some (str ''Q'')) \<and> Pawn_promotionGiven dest ex)"
    using q by (auto simp: Pawn_isMoveValid_def Let_def)
  moreover have "move_to move = dest \<Longrightarrow>
      (\<exists>q. getPiece (fst (Pawn_afterMove a b p move)) dest = Some q \<and>
           color q = color p \<and> location q = dest \<and> type q = promotionType (move_extra move))"
    using assms
    by (cases "rankNumber dest = 1") (simp_all add: Pawn_afterMove_def Let_def
          getPiece_setPiece_same [of _ "instantiate t c b' dest" for t c b', simplified])
  ultimately show ?thesis
    using Pawn_promotionGiven_iff [OF assms, of ex] by (simp add: promotionType_def)
qed

text \<open>
  The white pawn on A7 promotes on A8 with \<open>N\<close> and not with \<open>X\<close>; the whole move puts a
  white knight on A8.
\<close>

theorem Pawn_promotion_witness:
  "Pawn_isMoveValid promotionBoard (instantiate PAWN WHITE promotionBoard (Square_new 1 7))
     (Square_new 1 8) (Some (str ''N'')) = True \<and>
   Pawn_isMoveValid promotionBoard (instantiate PAWN WHITE promotionBoard (Square_new 1 7))
     (Square_new 1 8) (Some (str ''X'')) = False \<and>
   (\<exists>q. getPiece (fst (Pawn_afterMove 0 promotionBoard
               (instantiate PAWN WHITE promotionBoard (Square_new 1 7))
               \<lparr>move_piece = None, move_from = Square_new 1 7, move_to = Square_new 1 8,
                move_capture = False, move_extra = Some (str ''N'')\<rparr>)) (Square_new 1 8) = Some q \<and>
        type q = KNIGHT \<and> color q = WHITE) \<and>
   map_option (\<lambda>(ok, b). (ok, map_option type (getPiece b (Square_new 1 8))))
     (makeMoveIfValid (isAttacked 3) 0 promotionBoard (Square_new 1 7) (Square_new 1 8)
        (Some (str ''N''))) = Some (True, Some KNIGHT)"
proof -
  let ?p = "instantiate PAWN WHITE promotionBoard (Square_new 1 7)"
  let ?m = "\<lparr>move_piece = None, move_from = Square_new 1 7, move_to = Square_new 1 8,
             move_capture = False, move_extra = Some (str ''N'')\<rparr>"
  have 1: "rankNumber (Square_new 1 8) = 1 \<or> rankNumber (Square_new 1 8) = 8"
    by (simp add: Square_new_def)
  have 2: "Pawn_isMoveValid promotionBoard ?p (Square_new 1 8) (Some (str ''Q'')) = True"
    by code_simp
  have 3: "map_option (\<lambda>(ok, b). (ok, map_option type (getPiece b (Square_new 1 8))))
     (makeMoveIfValid (isAttacked 3) 0 promotionBoard (Square_new 1 7) (Square_new 1 8)
        (Some (str ''N''))) = Some (True, Some KNIGHT)"
    by code_simp
  show ?thesis
    using Pawn_promotion [OF 1, where b = promotionBoard and p = ?p and ex = "Some (str ''N'')"
        and move = ?m and a = 0]
      Pawn_promotion [OF 1, where b = promotionBoard and p = ?p and ex = "Some (str ''X'')"] 2 3
    by (auto simp: str_def)
qed

text \<open>
  C2 as stated takes \<open>Q\<close> for a missing choice and knows the four letters \<open>Q\<close>, \<open>R\<close>,
  \<open>B\<close>, \<open>N\<close>: the pawn on A7 may not move to A8 without a promotion argument, and may
  with the argument \<open>K\<close>.
\<close>

theorem Pawn_promotion_counterexample:
  "getPiece promotionBoard (Square_new 1 7) =
     Some (instantiate PAWN WHITE promotionBoard (Square_new 1 7)) \<and>
   Pawn_isMoveValid promotionBoard (instantiate PAWN WHITE promotionBoard (Square_new 1 7))
     (Square_new 1 8) None = False \<and>
   Pawn_isMoveValid promotionBoard (instantiate PAWN WHITE promotionBoard (Square_new 1 7))
     (Square_new 1 8) (Some (str ''K'')) = True"
  by code_simp


section \<open>Castling\<close>

lemma validateCanCastle_True:
  assumes "validateCanCastle att b k rook = Some True"
  shows "asString (location k) = (if color k = WHITE then str ''E1'' else str ''E8'') \<and>
         isInCheck att b (color k) = Some False \<and>
         (\<exists>r. rook = Some r \<and> type r = ROOK \<and> color r = color k \<and>
              isPathClear b (pathTo (location k) (location r)))"
  using assms
  by (cases "color k")
     (auto simp: validateCanCastle_def split: if_splits option.splits bool.splits)




text \<open>
  On that board \<open>makeMove\<close> refuses the move: after it the king stands in check, which
  \<open>makeMove\<close> looks for after every move.
\<close>

lemma castling_into_check_refused_by_makeMove:
  "map_option fst
     (makeMove (isAttacked 3) 0 (gameOn castleBoard WHITE 0) (Square_new 5 1) (Square_new 7 1) None)
   = Some IN_CHECK_AFTER_TURN"
  by code_simp

text \<open>
  That is no test of the destination before the move.  With the black pawn on G2,
  \<open>Board.isAttacked\<close> says that G1 is attacked (the pawn has the step to G1 among its
  moves, and the square is empty), and \<open>makeMove\<close> accepts E1 to G1: once the king is on
  G1 the pawn cannot step there.
\<close>

lemma castling_onto_attacked_square_accepted_by_makeMove:
  "isAttacked 3 castlePawnG2 (Square_new 7 1) (Some BLACK) = Some True \<and>
   map_option fst
     (makeMove (isAttacked 3) 0 (gameOn castlePawnG2 WHITE 0) (Square_new 5 1) (Square_new 7 1)
        None) = Some MOVE_OK"
  by code_simp

text \<open>
  \<open>Board.isAttacked\<close> does not say that a pawn attacks the empty squares beside the
  square in front of it: a pawn moves there only to take a piece.  With the black pawn on
  E2, which covers F1, it says that F1 is not attacked, and the king castles across F1.
\<close>

lemma castling_across_covered_square_accepted:
  "isAttacked 3 castlePawnE2 (Square_new 6 1) (Some BLACK) = Some False \<and>
   King_isMoveValid (isAttacked 3) castlePawnE2
     (instantiate KING WHITE castlePawnE2 (Square_new 5 1)) (Square_new 7 1) = Some True \<and>
   map_option fst
     (makeMove (isAttacked 3) 0 (gameOn castlePawnE2 WHITE 0) (Square_new 5 1) (Square_new 7 1)
        None) = Some MOVE_OK"
  by code_simp

text \<open>
  The move of a king takes both castling rights of its color with it, the move of a rook
  that leaves the H file the short one and the move of a rook that leaves the A file the
  long one.
\<close>

lemma King_afterMove_revokes:
  "King_afterMove b p move = Some b' \<Longrightarrow>
   \<not> flag (short (castlingRights b')) (color p) \<and> \<not> flag (long (castlingRights b')) (color p)"
  by (cases "color p")
     (auto simp: King_afterMove_def Let_def flag_def set_flag_def
        split: option.splits if_splits prod.splits)

lemma Rook_afterMove_revokes:
  "fileNumber (move_from move) = 8 \<Longrightarrow>
   \<not> flag (short (castlingRights (Rook_afterMove b p move))) (color p)"
  "fileNumber (move_from move) = 1 \<Longrightarrow>
   \<not> flag (long (castlingRights (Rook_afterMove b p move))) (color p)"
  by (cases "color p"; simp add: Rook_afterMove_def Let_def flag_def set_flag_def Piece_afterMove_def)+

text \<open>
  A deeper call stack changes no answer: what \<open>Board.isAttacked\<close> returns with a
  stack of \<open>n\<close> calls, it returns with any deeper one, and so do the methods that call
  it.
\<close>

lemma att_leD: "att_le f g \<Longrightarrow> f b sq c = Some r \<Longrightarrow> g b sq c = Some r"
  by (simp add: att_le_def)

lemma isInCheck_from_mono:
  "att_le f g \<Longrightarrow> isInCheck_from f b c ps = Some r \<Longrightarrow> isInCheck_from g b c ps = Some r"
proof (induction ps)
  case Nil
  then show ?case by simp
next
  case (Cons x ps)
  obtain k p where x: "x = (k, p)" by (cases x)
  show ?case
  proof (cases "type p \<noteq> KING \<or> color p \<noteq> c")
    case True
    then show ?thesis using Cons x by auto
  next
    case False
    then obtain v where v: "f b (location p) (Some (swap c)) = Some v"
      using Cons.prems x by (auto split: option.splits)
    then have "g b (location p) (Some (swap c)) = Some v"
      using att_leD [OF Cons.prems(1)] by blast
    with v False Cons x show ?thesis by (cases v) auto
  qed
qed

lemma isInCheck_mono:
  "att_le f g \<Longrightarrow> isInCheck f b c = Some r \<Longrightarrow> isInCheck g b c = Some r"
  by (simp add: isInCheck_def isInCheck_from_mono)

lemma validateCanCastle_mono:
  "att_le f g \<Longrightarrow> validateCanCastle f b p rook = Some r \<Longrightarrow> validateCanCastle g b p rook = Some r"
  by (auto simp: validateCanCastle_def split: if_splits option.splits bool.splits
        dest: isInCheck_mono)

lemma canCastleShort_mono:
  "att_le f g \<Longrightarrow> canCastleShort f b p = Some r \<Longrightarrow> canCastleShort g b p = Some r"
  by (auto simp: canCastleShort_def split: if_splits option.splits bool.splits
        dest: validateCanCastle_mono att_leD)

lemma canCastleLong_mono:
  "att_le f g \<Longrightarrow> canCastleLong f b p = Some r \<Longrightarrow> canCastleLong g b p = Some r"
  by (auto simp: canCastleLong_def split: if_splits option.splits bool.splits
        dest: validateCanCastle_mono att_leD)

lemma isMoveValid_mono:
  "att_le f g \<Longrightarrow> isMoveValid f b p dest ex = Some r \<Longrightarrow> isMoveValid g b p dest ex = Some r"
  by (auto simp: isMoveValid_def King_isMoveValid_def split: Type.splits if_splits
        dest: canCastleShort_mono canCastleLong_mono)

lemma isAttacked_by_mono:
  "att_le f g \<Longrightarrow> isAttacked_by f b sq p ms = Some r \<Longrightarrow> isAttacked_by g b sq p ms = Some r"
proof (induction ms)
  case Nil
  then show ?case by simp
next
  case (Cons m ms)
  show ?case
  proof (cases "Square_equals m (Some sq)")
    case False
    then show ?thesis using Cons by auto
  next
    case True
    then obtain v where v: "isMoveValid f b p m (Some (str ''Q'')) = Some v"
      using Cons.prems by (auto split: option.splits)
    from isMoveValid_mono [OF Cons.prems(1) v] v True Cons show ?thesis
      by (cases v) auto
  qed
qed

lemma isAttacked_from_mono:
  "att_le f g \<Longrightarrow> isAttacked_from f b sq c ps = Some r \<Longrightarrow> isAttacked_from g b sq c ps = Some r"
proof (induction ps)
  case Nil
  then show ?case by simp
next
  case (Cons x ps)
  obtain k p where x: "x = (k, p)" by (cases x)
  show ?case
  proof (cases "c \<noteq> None \<and> c \<noteq> Some (color p)")
    case True
    then show ?thesis using Cons x by auto
  next
    case False
    then obtain v where v: "isAttacked_by f b sq p (validMoves p) = Some v"
      using Cons.prems x by (auto split: option.splits)
    from isAttacked_by_mono [OF Cons.prems(1) v] v False Cons x show ?thesis
      by (cases v) auto
  qed
qed

lemma isAttacked_Suc: "att_le (isAttacked n) (isAttacked (Suc n))"
proof (induction n)
  case 0
  then show ?case by (simp add: att_le_def)
next
  case (Suc n)
  show ?case
    unfolding att_le_def
    using isAttacked_from_mono [OF Suc] by auto
qed

lemma att_le_refl: "att_le f f"
  by (simp add: att_le_def)

lemma att_le_trans: "att_le f g \<Longrightarrow> att_le g h \<Longrightarrow> att_le f h"
  by (simp add: att_le_def)

lemma isAttacked_mono: "n \<le> m \<Longrightarrow> att_le (isAttacked n) (isAttacked m)"
proof (induction m)
  case 0
  then have "n = 0" by simp
  then show ?case using att_le_refl by blast
next
  case (Suc m)
  show ?case
  proof (cases "n \<le> m")
    case True
    from att_le_trans [OF Suc.IH [OF True] isAttacked_Suc] show ?thesis .
  next
    case False
    with Suc.prems have "n = Suc m" by simp
    then show ?thesis using att_le_refl by blast
  qed
qed

lemma isAttacked_more_stack:
  "isAttacked n b sq c = Some r \<Longrightarrow> n \<le> m \<Longrightarrow> isAttacked m b sq c = Some r"
  using isAttacked_mono att_leD by blast

lemma makeMoveIfValid_mono:
  "att_le f g \<Longrightarrow> makeMoveIfValid f a b src dest ex = Some r \<Longrightarrow>
   makeMoveIfValid g a b src dest ex = Some r"
  by (auto simp: makeMoveIfValid_def Let_def split: option.splits bool.splits if_splits prod.splits
        dest: isMoveValid_mono)

text \<open>
  The recursion between \<open>King.isMoveValid\<close> and \<open>Board.isAttacked\<close> need not end: on
  \<open>askingKings\<close> no call stack is deep enough.
\<close>

lemma askingKings_pieces:
  "pieces askingKings =
     [(str ''H1'', instantiate KING WHITE askingKings (Square_new 8 1)),
      (str ''B1'', instantiate KING BLACK askingKings (Square_new 2 1))]"
  by code_simp

lemma askingKings_white:
  "validMoves (instantiate KING WHITE askingKings (Square_new 8 1)) =
     [Square_new 7 2, Square_new 7 1, Square_new 8 2, Square_new 6 1]"
  by code_simp

lemma askingKings_black:
  "validMoves (instantiate KING BLACK askingKings (Square_new 2 1)) =
     [Square_new 1 2, Square_new 3 2, Square_new 1 1, Square_new 3 1, Square_new 2 2,
      Square_new 4 1]"
  by code_simp

lemma askingKings_rights:
  "flag (long (castlingRights askingKings)) WHITE" "flag (short (castlingRights askingKings)) BLACK"
  by code_simp+

lemma askingKings_never_return:
  "isAttacked n askingKings (Square_new 4 1) (Some BLACK) = None \<and>
   isAttacked n askingKings (Square_new 6 1) (Some WHITE) = None"
proof (induction n)
  case 0
  then show ?case by simp
next
  case (Suc n)
  then show ?case
    by (simp add: askingKings_pieces askingKings_white askingKings_black askingKings_rights
          isMoveValid_def King_isMoveValid_def Piece_isMoveValid_def canCastleShort_def
          canCastleLong_def Square_of_letter_def Square_new_simps swap_def)
qed

lemma King_isMoveValid_never_returns:
  "King_isMoveValid (isAttacked n) askingKings (instantiate KING WHITE askingKings (Square_new 8 1))
     (Square_new 6 1) = None"
  using askingKings_never_return [of n]
  by (simp add: askingKings_white askingKings_rights King_isMoveValid_def Piece_isMoveValid_def
        canCastleLong_def Square_of_letter_def Square_new_simps swap_def)


section \<open>Equality of boards\<close>

lemma equals_from_iff:
  "equals_from other ps =
     (\<forall>(k, p) \<in> set ps.
        \<exists>p2. map_of (pieces other) k = Some p2 \<and> color p = color p2 \<and> type p = type p2)"
proof (induction ps)
  case Nil
  then show ?case by simp
next
  case (Cons x ps)
  obtain k p where x: "x = (k, p)" by (cases x)
  show ?case
  proof (cases "map_of (pieces other) k")
    case None
    then show ?thesis using x by auto
  next
    case (Some p2)
    then show ?thesis using x Cons by auto
  qed
qed

lemma equals_from_all:
  "(\<And>k p. (k, p) \<in> set ps \<Longrightarrow>
       \<exists>p2. map_of (pieces other) k = Some p2 \<and> color p = color p2 \<and> type p = type p2) \<Longrightarrow>
   equals_from other ps"
  unfolding equals_from_iff by blast

lemma equals_from_pieces:
  "pieces o' = pieces other \<Longrightarrow> equals_from o' ps = equals_from other ps"
  by (simp add: equals_from_iff)

text \<open>
  What \<open>Board.equals\<close> decides: the two en passant references are the same, the four
  castling rights agree, and every piece of \<open>this\<close> board has a piece of its color and
  type on the same key of the \<open>other\<close> board.
\<close>

lemma Board_equals_iff:
  "Board_equals this other =
     (enPassantSquare other = enPassantSquare this \<and>
      flag (short (castlingRights other)) WHITE = flag (short (castlingRights this)) WHITE \<and>
      flag (short (castlingRights other)) BLACK = flag (short (castlingRights this)) BLACK \<and>
      flag (long (castlingRights other)) WHITE = flag (long (castlingRights this)) WHITE \<and>
      flag (long (castlingRights other)) BLACK = flag (long (castlingRights this)) BLACK \<and>
      (\<forall>(k, p) \<in> set (pieces this).
         \<exists>p2. map_of (pieces other) k = Some p2 \<and> color p = color p2 \<and> type p = type p2))"
  by (auto simp: Board_equals_def equals_from_iff)

text \<open>
  C8 fails on the code: \<open>Board.equals\<close> looks at the squares that \<open>this\<close> board occupies
  and never at the others.  The board with the two kings equals the board with the two
  kings and a white queen on D1.
\<close>

theorem Board_equals_extra_piece:
  "Board_equals kings (place kings QUEEN WHITE (Square_new 4 1)) = True \<and>
   getPiece kings (Square_new 4 1) = None \<and>
   map_option type (getPiece (place kings QUEEN WHITE (Square_new 4 1)) (Square_new 4 1)) =
     Some QUEEN"
  by code_simp

text \<open>The other way round the two boards are different.\<close>

theorem Board_equals_extra_piece_witness:
  "Board_equals kings (place kings QUEEN WHITE (Square_new 4 1)) \<noteq>
   Board_equals (place kings QUEEN WHITE (Square_new 4 1)) kings"
proof -
  have "Board_equals (place kings QUEEN WHITE (Square_new 4 1)) kings = False" by code_simp
  with Board_equals_extra_piece show ?thesis by simp
qed

text \<open>
  Two en passant squares with the same file and rank that are two objects make two boards
  different.
\<close>

lemma Board_equals_reference:
  "i \<noteq> j \<Longrightarrow>
   Board_equals (b\<lparr>enPassantSquare := Some \<lparr>ref_id = i, ref_square = s\<rparr>\<rparr>)
     (b\<lparr>enPassantSquare := Some \<lparr>ref_id = j, ref_square = s\<rparr>\<rparr>) = False"
  by (simp add: Board_equals_def)


section \<open>The hash cache\<close>

lemma cacheVariant_refl [simp]: "cacheVariant b b"
  unfolding cacheVariant_def by (rule exI [of _ "dirty b"], rule exI [of _ "hash b"]) simp

lemma stateVariant_refl [simp]: "stateVariant s s"
  unfolding stateVariant_def by (rule exI [of _ "board s"]) simp

lemma cacheVariant_fields:
  "cacheVariant b b' \<Longrightarrow> pieces b' = pieces b \<and> castlingRights b' = castlingRights b \<and>
     enPassantSquare b' = enPassantSquare b \<and> lastMove b' = lastMove b \<and>
     highlightedSquares b' = highlightedSquares b"
  by (auto simp: cacheVariant_def)

lemma calculateHash_variant: "cacheVariant b (snd (calculateHash b))"
proof (cases "dirty b")
  case True
  then show ?thesis by (auto simp: calculateHash_def Let_def cacheVariant_def)
next
  case False
  then show ?thesis by (simp add: calculateHash_def)
qed

lemma calculateHash_idem:
  "calculateHash (snd (calculateHash b)) = (fst (calculateHash b), snd (calculateHash b))"
  by (cases "dirty b") (simp_all add: calculateHash_def Let_def)

lemma Board_equals_variant:
  "cacheVariant b b' \<Longrightarrow> cacheVariant c c' \<Longrightarrow> Board_equals b' c' = Board_equals b c"
  using cacheVariant_fields [of b b'] cacheVariant_fields [of c c']
  by (simp add: Board_equals_def equals_from_pieces [of c' c])

lemma Board_equals_recalculated:
  assumes "cacheVariant b b'" "distinct (map fst (pieces b))"
  shows "Board_equals (recalculateAllPiecesMoves b') b"
proof -
  from assms(1) have f: "pieces b' = pieces b" "castlingRights b' = castlingRights b"
    "enPassantSquare b' = enPassantSquare b"
    using cacheVariant_fields by blast+
  have "equals_from b (map (\<lambda>(loc, p). (loc, recalculateValidMoves b' p)) (pieces b))"
  proof (rule equals_from_all)
    fix k p
    assume "(k, p) \<in> set (map (\<lambda>(loc, p). (loc, recalculateValidMoves b' p)) (pieces b))"
    then obtain q where q: "(k, q) \<in> set (pieces b)" "p = recalculateValidMoves b' q"
      by auto
    with assms(2) have "map_of (pieces b) k = Some q" by simp
    with q show "\<exists>p2. map_of (pieces b) k = Some p2 \<and> color p = color p2 \<and> type p = type p2"
      by simp
  qed
  then show ?thesis
    by (simp add: Board_equals_def recalculateAllPiecesMoves_def f)
qed

lemma cloneBoard_variant: "cacheVariant b b' \<Longrightarrow> cloneBoard b' = cloneBoard b"
  by (auto simp: cacheVariant_def cloneBoard_def)

lemma getValidMovesFor_piece_variant:
  "cacheVariant b b' \<Longrightarrow>
   getValidMovesFor_piece att a b' c p ms = getValidMovesFor_piece att a b c p ms"
  by (induction ms)
     (simp_all add: cloneBoard_variant cong: option.case_cong prod.case_cong bool.case_cong)

lemma getValidMovesFor_from_variant:
  "cacheVariant b b' \<Longrightarrow>
   getValidMovesFor_from att a b' c ps = getValidMovesFor_from att a b c ps"
  by (induction ps) (auto simp: getValidMovesFor_piece_variant cong: option.case_cong)

lemma getValidMovesFor_variant:
  "cacheVariant b b' \<Longrightarrow> getValidMovesFor att a b' c = getValidMovesFor att a b c"
  using cacheVariant_fields [of b b']
  by (simp add: getValidMovesFor_def getValidMovesFor_from_variant)

lemma threefold_forEach_variant:
  "list_all2 stateVariant hist (snd (threefold_forEach ch cur amount hist))"
proof (induction hist arbitrary: amount)
  case Nil
  then show ?case by simp
next
  case (Cons other rest)
  have "stateVariant other (other\<lparr>board := snd (calculateHash (board other))\<rparr>)"
    unfolding stateVariant_def using calculateHash_variant by blast
  then show ?case using Cons
    by (simp add: Let_def split_beta)
qed

lemma threefold_forEach_idem:
  "cacheVariant cur cur' \<Longrightarrow>
   threefold_forEach ch cur' amount (snd (threefold_forEach ch cur amount hist)) =
   threefold_forEach ch cur amount hist"
proof (induction hist arbitrary: amount ch)
  case Nil
  then show ?case by simp
next
  case (Cons other rest)
  have v: "cacheVariant (snd (calculateHash (board other))) (snd (calculateHash (board other)))"
    by simp
  show ?case
    using Cons calculateHash_idem [of "board other"] Board_equals_variant [OF Cons.prems v]
    by (simp add: Let_def split_beta)
qed

lemma checkForThreefoldRepetition_variant:
  "checkForThreefoldRepetition g = (t, g') \<Longrightarrow>
     result g' = result g \<and> stateVariant (currentState g) (currentState g') \<and>
     list_all2 stateVariant (stateHistory g) (stateHistory g')"
  using threefold_forEach_variant [of "stateHistory g"]
    calculateHash_variant [of "board (currentState g)"]
  by (auto simp: checkForThreefoldRepetition_def Let_def split_beta stateVariant_def)

lemma checkForThreefoldRepetition_idem:
  assumes "checkForThreefoldRepetition g = (t, g1)"
  shows "fst (checkForThreefoldRepetition (g1\<lparr>result := r\<rparr>)) = t"
proof -
  let ?cb = "snd (calculateHash (board (currentState g)))"
  let ?ch = "fst (calculateHash (board (currentState g)))"
  from assms have g1: "currentState g1 = (currentState g)\<lparr>board := ?cb\<rparr>"
    "stateHistory g1 = snd (threefold_forEach ?ch ?cb 1 (stateHistory g))"
    "t = (fst (threefold_forEach ?ch ?cb 1 (stateHistory g)) \<ge> 3)"
    by (auto simp: checkForThreefoldRepetition_def Let_def split_beta)
  have "cacheVariant ?cb ?cb" by simp
  from threefold_forEach_idem [OF this, of ?ch 1 "stateHistory g"] g1 show ?thesis
    by (simp add: checkForThreefoldRepetition_def Let_def split_beta calculateHash_idem)
qed


section \<open>Material\<close>

lemma foldl_count:
  "foldl (\<lambda>count (loc, p). if color p = c then count(type p := count (type p) + 1) else count)
     cnt ps t
   = cnt t + int (length (filter (\<lambda>(loc, p). color p = c \<and> type p = t) ps))"
  by (induction ps arbitrary: cnt) (auto split: prod.splits)

lemma getPiecesCountByType_countOf: "getPiecesCountByType b c t = int (countOf b c t)"
  by (simp add: getPiecesCountByType_def countOf_def foldl_count)

lemma validateHasSufficientMaterial_spec:
  "validateHasSufficientMaterial g side = sufficientMaterial_spec (board (currentState g)) side"
  by (auto simp: validateHasSufficientMaterial_def sufficientMaterial_spec_def
        getPiecesCountByType_countOf Let_def)

lemma checkForInsufficientMaterial_variant:
  "stateVariant (currentState g) (currentState g') \<Longrightarrow>
   checkForInsufficientMaterial g' = checkForInsufficientMaterial g"
  by (auto simp: stateVariant_def cacheVariant_def checkForInsufficientMaterial_def
        validateHasSufficientMaterial_def getPiecesCountByType_def)

text \<open>
  C6: \<open>checkForInsufficientMaterial\<close> is true exactly when neither side has sufficient
  material, where a side has sufficient material when it has a rook, a queen or a pawn, or
  two bishops, or three knights, or a bishop and a knight.
\<close>

theorem checkForInsufficientMaterial_spec:
  "checkForInsufficientMaterial g =
     (\<not> sufficientMaterial_spec (board (currentState g)) WHITE \<and>
      \<not> sufficientMaterial_spec (board (currentState g)) BLACK)"
  by (simp add: checkForInsufficientMaterial_def validateHasSufficientMaterial_spec)

text \<open>King against king and king and bishop against king are drawn, king and rook against
  king is not.\<close>

theorem checkForInsufficientMaterial_witness:
  "checkForInsufficientMaterial (gameOn kings WHITE 0) \<and>
   checkForInsufficientMaterial (gameOn (place kings BISHOP WHITE (Square_new 3 1)) WHITE 0) \<and>
   \<not> checkForInsufficientMaterial (gameOn (place kings ROOK WHITE (Square_new 1 1)) WHITE 0)"
proof -
  have "\<not> sufficientMaterial_spec kings WHITE" "\<not> sufficientMaterial_spec kings BLACK"
    "\<not> sufficientMaterial_spec (place kings BISHOP WHITE (Square_new 3 1)) WHITE"
    "\<not> sufficientMaterial_spec (place kings BISHOP WHITE (Square_new 3 1)) BLACK"
    "sufficientMaterial_spec (place kings ROOK WHITE (Square_new 1 1)) WHITE"
    by code_simp+
  then show ?thesis
    using checkForInsufficientMaterial_spec [of "gameOn kings WHITE 0"]
      checkForInsufficientMaterial_spec
        [of "gameOn (place kings BISHOP WHITE (Square_new 3 1)) WHITE 0"]
      checkForInsufficientMaterial_spec
        [of "gameOn (place kings ROOK WHITE (Square_new 1 1)) WHITE 0"]
    by (simp add: gameOn_def)
qed


section \<open>The game\<close>

text \<open>
  C3: once the result of a game is not \<open>ONGOING\<close>, \<open>makeMove\<close> returns \<open>GAME_ENDED\<close> and
  \<open>resign\<close>, \<open>offerDraw\<close> and \<open>takebackMove\<close> return \<open>false\<close>, each leaving the game
  as it is; and the result is \<open>ONGOING\<close> exactly when \<open>makeMove\<close> does not answer
  \<open>GAME_ENDED\<close> and exactly when \<open>offerDraw\<close> returns \<open>true\<close>.
\<close>

theorem terminal_games_absorb:
  "(result g \<noteq> ONGOING \<longrightarrow>
      makeMove att a g src dest ex = Some (GAME_ENDED, g) \<and>
      resign g c = (False, g) \<and> offerDraw g c = (False, g) \<and>
      takebackMove g = (Some False, g)) \<and>
   ((result g = ONGOING) = (map_option fst (makeMove att a g src dest ex) \<noteq> Some GAME_ENDED)) \<and>
   ((result g = ONGOING) = fst (offerDraw g c))"
proof -
  have "result g = ONGOING \<Longrightarrow> map_option fst (makeMove att a g src dest ex) \<noteq> Some GAME_ENDED"
    by (auto simp: makeMove_def Let_def split: option.splits bool.splits prod.splits if_splits)
  then show ?thesis
    by (auto simp: makeMove_def resign_def offerDraw_def takebackMove_def isConcluded_def Let_def)
qed

text \<open>The new game after White has resigned, and the new game itself.\<close>

theorem terminal_games_absorb_witness:
  "result (snd (resign reset WHITE)) = WHITE_RESIGNED \<and>
   makeMove (isAttacked 3) 0 (snd (resign reset WHITE)) (Square_new 5 2) (Square_new 5 4) None =
     Some (GAME_ENDED, snd (resign reset WHITE)) \<and>
   offerDraw (snd (resign reset WHITE)) BLACK = (False, snd (resign reset WHITE)) \<and>
   takebackMove (snd (resign reset WHITE)) = (Some False, snd (resign reset WHITE)) \<and>
   fst (offerDraw reset WHITE)"
proof -
  have 1: "result (snd (resign reset WHITE)) = WHITE_RESIGNED"
    by (simp add: resign_def reset_def isConcluded_def)
  have 2: "result reset = ONGOING" by (simp add: reset_def)
  show ?thesis
    using terminal_games_absorb [of "snd (resign reset WHITE)" "isAttacked 3" 0 "Square_new 5 2"
        "Square_new 5 4" None BLACK]
      terminal_games_absorb [of reset "isAttacked 3" 0 "Square_new 5 2" "Square_new 5 4" None WHITE]
      1 2
    by simp
qed

text \<open>What a successful \<open>makeMove\<close> has done.\<close>

lemma makeMove_OK:
  assumes "makeMove att a g src dest ex = Some (MOVE_OK, g')"
  shows "\<exists>piece newBoard nb lm.
           result g = ONGOING \<and>
           getPiece (board (currentState g)) src = Some piece \<and>
           color piece = currentTurn (currentState g) \<and>
           cloneBoard (board (currentState g)) = Some newBoard \<and>
           makeMoveIfValid att a newBoard (location piece) dest ex = Some (True, nb) \<and>
           isInCheck att nb (currentTurn (currentState g)) = Some False \<and>
           lastMove nb = Some lm \<and>
           concludeMove att a (installed g nb lm) = Some g'"
proof -
  from assms have r: "result g = ONGOING"
    by (auto simp: makeMove_def split: if_splits)
  from assms r obtain piece where p: "getPiece (board (currentState g)) src = Some piece"
    by (auto simp: makeMove_def split: option.splits)
  from assms r p have c: "color piece = currentTurn (currentState g)"
    by (auto simp: makeMove_def split: if_splits)
  from assms r p c obtain newBoard where cl: "cloneBoard (board (currentState g)) = Some newBoard"
    by (auto simp: makeMove_def split: option.splits)
  from assms r p c cl obtain ok nb where
    mv: "makeMoveIfValid att a newBoard (location piece) dest ex = Some (ok, nb)"
    by (auto simp: makeMove_def split: option.splits)
  from assms r p c cl mv have ok: "ok"
    by (cases ok) (auto simp: makeMove_def)
  from assms r p c cl mv ok obtain chk where
    ch: "isInCheck att nb (currentTurn (currentState g)) = Some chk"
    by (auto simp: makeMove_def split: option.splits)
  from assms r p c cl mv ok ch have nchk: "\<not> chk"
    by (cases chk) (auto simp: makeMove_def)
  from assms r p c cl mv ok ch nchk obtain lm where lm: "lastMove nb = Some lm"
    by (auto simp: makeMove_def Let_def split: option.splits)
  from assms r p c cl mv ok ch nchk lm have "concludeMove att a (installed g nb lm) = Some g'"
    by (cases "move_capture lm"; cases "move_piece lm")
       (auto simp: makeMove_def Let_def installed_def split: if_splits)
  with r p c cl mv ok ch nchk lm show ?thesis by auto
qed

lemma concludeMove_variant:
  assumes "concludeMove att a g = Some g'"
  shows "stateVariant (currentState g) (currentState g') \<and>
         list_all2 stateVariant (stateHistory g) (stateHistory g')"
proof -
  have refl: "list_all2 stateVariant (stateHistory g) (stateHistory g)"
    by (simp add: list_all2_refl)
  obtain t g3 where t: "checkForThreefoldRepetition g = (t, g3)"
    by (cases "checkForThreefoldRepetition g")
  from checkForThreefoldRepetition_variant [OF t] assms t refl show ?thesis
    by (auto simp: concludeMove_def Let_def split: option.splits if_splits bool.splits)
qed

lemma concludeMove_result:
  assumes "concludeMove att a g = Some g'" and "result g = ONGOING"
  shows "\<exists>moves.
           getValidMovesFor att a (board (currentState g')) (currentTurn (currentState g')) =
             Some moves \<and>
           (if moves = [] then
              (\<exists>chk. isInCheck att (board (currentState g')) (currentTurn (currentState g')) =
                       Some chk \<and>
                 result g' =
                   (if chk
                    then (if currentTurn (currentState g') = WHITE then WHITE_MATED else BLACK_MATED)
                    else STALEMATED))
            else
              result g' =
                (if checkForInsufficientMaterial g' then INSUFFICIENT_MATERIAL
                 else if fst (checkForThreefoldRepetition g') then THREEFOLD_REPETITION
                 else if checkForFiftyMoveRuleViolation g' then FIFTY_MOVES
                 else ONGOING))"
proof -
  from assms(1) obtain moves where
    m: "getValidMovesFor att a (board (currentState g)) (currentTurn (currentState g)) = Some moves"
    by (auto simp: concludeMove_def split: option.splits)
  from concludeMove_variant [OF assms(1)]
  obtain b' where b': "cacheVariant (board (currentState g)) b'"
    "currentState g' = (currentState g)\<lparr>board := b'\<rparr>"
    by (auto simp: stateVariant_def)
  have m': "getValidMovesFor att a (board (currentState g')) (currentTurn (currentState g')) =
              Some moves"
    using m b' by (simp add: getValidMovesFor_variant)
  show ?thesis
  proof (cases "moves = []")
    case True
    with assms(1) m obtain chk where
      "isInCheck att (board (currentState g)) (currentTurn (currentState g)) = Some chk"
      "g' = g\<lparr>result := (if chk then (if currentTurn (currentState g) = WHITE then WHITE_MATED
                                       else BLACK_MATED) else STALEMATED)\<rparr>"
      by (auto simp: concludeMove_def split: option.splits bool.splits)
    with True m' show ?thesis by auto
  next
    case False
    show ?thesis
    proof (cases "checkForInsufficientMaterial g")
      case True
      with assms(1) m False have "g' = g\<lparr>result := INSUFFICIENT_MATERIAL\<rparr>"
        by (auto simp: concludeMove_def)
      with True False m' show ?thesis
        by (simp add: checkForInsufficientMaterial_def validateHasSufficientMaterial_def)
    next
      case ins: False
      obtain t g3 where t: "checkForThreefoldRepetition g = (t, g3)"
        by (cases "checkForThreefoldRepetition g")
      from checkForThreefoldRepetition_variant [OF t]
      have v: "result g3 = ONGOING" "stateVariant (currentState g) (currentState g3)"
        using assms(2) by auto
      have ins3: "\<And>r. \<not> checkForInsufficientMaterial (g3\<lparr>result := r\<rparr>)"
        using ins checkForInsufficientMaterial_variant [of g "g3\<lparr>result := r\<rparr>" for r] v(2)
        by simp
      have fifty: "\<And>r. checkForFiftyMoveRuleViolation (g3\<lparr>result := r\<rparr>) =
                        checkForFiftyMoveRuleViolation g3"
        by (simp add: checkForFiftyMoveRuleViolation_def)
      from assms(1) m False ins t have
        g': "g' = (if t then g3\<lparr>result := THREEFOLD_REPETITION\<rparr>
                  else if checkForFiftyMoveRuleViolation g3 then g3\<lparr>result := FIFTY_MOVES\<rparr>
                  else g3)"
        by (auto simp: concludeMove_def)
      then have "\<exists>r. g' = g3\<lparr>result := r\<rparr> \<and>
                     r = (if t then THREEFOLD_REPETITION
                          else if checkForFiftyMoveRuleViolation g3 then FIFTY_MOVES else ONGOING)"
        using v(1) by auto
      then obtain r where r: "g' = g3\<lparr>result := r\<rparr>"
        "r = (if t then THREEFOLD_REPETITION
              else if checkForFiftyMoveRuleViolation g3 then FIFTY_MOVES else ONGOING)"
        by blast
      from checkForThreefoldRepetition_idem [OF t, of r] r ins3 [of r] fifty [of r] False m'
      show ?thesis by auto
    qed
  qed
qed

text \<open>
  C4: after a successful \<open>makeMove\<close> the result of the game is decided in this order: if
  the side to move has no valid move, it is mated when it is in check and the game is a
  stalemate otherwise; else insufficient material; else threefold repetition; else the
  fifty-move rule; else the game goes on.  The conditions are those of the game as the
  call leaves it.
\<close>

theorem makeMove_termination_order:
  assumes "makeMove att a g src dest ex = Some (MOVE_OK, g')"
  shows "\<exists>moves.
           getValidMovesFor att a (board (currentState g')) (currentTurn (currentState g')) =
             Some moves \<and>
           (if moves = [] then
              (\<exists>chk. isInCheck att (board (currentState g')) (currentTurn (currentState g')) =
                       Some chk \<and>
                 result g' =
                   (if chk
                    then (if currentTurn (currentState g') = WHITE then WHITE_MATED else BLACK_MATED)
                    else STALEMATED))
            else
              result g' =
                (if checkForInsufficientMaterial g' then INSUFFICIENT_MATERIAL
                 else if fst (checkForThreefoldRepetition g') then THREEFOLD_REPETITION
                 else if checkForFiftyMoveRuleViolation g' then FIFTY_MOVES
                 else ONGOING))"
proof -
  from makeMove_OK [OF assms] obtain nb lm where
    "result g = ONGOING" "concludeMove att a (installed g nb lm) = Some g'"
    by blast
  then show ?thesis
    using concludeMove_result [of att a "installed g nb lm" g'] by (simp add: installed_def)
qed

text \<open>
  The king takes the rook on \<open>rookEnPrise\<close>: Black has moves, and the material decides.
  The queen moves to G7 on \<open>queenMate\<close>: Black has no move and is in check.
\<close>

theorem makeMove_termination_order_witness:
  "(\<exists>g'. makeMove (isAttacked 3) 0 (gameOn rookEnPrise WHITE 0) (Square_new 5 1) (Square_new 4 2)
            None = Some (MOVE_OK, g') \<and>
         getValidMovesFor (isAttacked 3) 0 (board (currentState g')) BLACK \<noteq> Some [] \<and>
         checkForInsufficientMaterial g' \<and> result g' = INSUFFICIENT_MATERIAL) \<and>
   (\<exists>g'. makeMove (isAttacked 3) 0 (gameOn queenMate WHITE 0) (Square_new 7 5) (Square_new 7 7)
            None = Some (MOVE_OK, g') \<and>
         getValidMovesFor (isAttacked 3) 0 (board (currentState g')) BLACK = Some [] \<and>
         isInCheck (isAttacked 3) (board (currentState g')) BLACK = Some True \<and>
         result g' = BLACK_MATED)"
proof -
  let ?x = "makeMove (isAttacked 3) 0 (gameOn rookEnPrise WHITE 0) (Square_new 5 1)
              (Square_new 4 2) None"
  let ?g = "snd (the ?x)"
  have "map_option fst ?x = Some MOVE_OK" by code_simp
  then have 1: "?x = Some (MOVE_OK, ?g)" by (rule eval_ok)
  have 2: "currentTurn (currentState ?g) = BLACK" by code_simp
  have 3: "map_option (\<lambda>ms. ms = [])
             (getValidMovesFor (isAttacked 3) 0 (board (currentState ?g)) BLACK) = Some False"
    by code_simp
  have 4: "checkForInsufficientMaterial ?g" by code_simp
  let ?y = "makeMove (isAttacked 3) 0 (gameOn queenMate WHITE 0) (Square_new 7 5)
              (Square_new 7 7) None"
  let ?h = "snd (the ?y)"
  have "map_option fst ?y = Some MOVE_OK" by code_simp
  then have 5: "?y = Some (MOVE_OK, ?h)" by (rule eval_ok)
  have 6: "currentTurn (currentState ?h) = BLACK" by code_simp
  have 7: "getValidMovesFor (isAttacked 3) 0 (board (currentState ?h)) BLACK = Some []"
    by code_simp
  have 8: "isInCheck (isAttacked 3) (board (currentState ?h)) BLACK = Some True" by code_simp
  from makeMove_termination_order [OF 1] 2 3 4 have "result ?g = INSUFFICIENT_MATERIAL"
    by auto
  moreover from makeMove_termination_order [OF 5] 6 7 8 have "result ?h = BLACK_MATED"
    by auto
  ultimately show ?thesis using 1 3 4 5 7 8 by auto
qed

text \<open>
  No operation makes a key of \<open>_pieces\<close> occur twice, puts a piece off the board or
  keeps it under another name than that of its square.
\<close>

lemma distinctKeys_setPiece [simp]: "distinctKeys b \<Longrightarrow> distinctKeys (setPiece b p)"
  by (simp add: distinctKeys_def setPiece_def distinct_update)

lemma distinctKeys_removePieceAt [simp]: "distinctKeys b \<Longrightarrow> distinctKeys (removePieceAt b sq)"
  by (simp add: distinctKeys_def removePieceAt_def distinct_delete)

lemma distinctKeys_recalculateAllPiecesMoves [simp]:
  "distinctKeys (recalculateAllPiecesMoves b) = distinctKeys b"
  by (simp add: distinctKeys_def recalculateAllPiecesMoves_def split_beta comp_def)

lemma distinctKeys_pieces: "pieces b' = pieces b \<Longrightarrow> distinctKeys b' = distinctKeys b"
  by (simp add: distinctKeys_def)

lemma distinctKeys_place [simp]: "distinctKeys b \<Longrightarrow> distinctKeys (place b t c sq)"
  by (simp add: place_def)

lemma distinctKeys_cloneFold:
  "distinctKeys nb \<Longrightarrow>
   distinctKeys (foldl (\<lambda>nb (loc, p).
      nb\<lparr>pieces := AList.update loc (cloneToAnotherBoard p nb) (pieces nb)\<rparr>) nb ps)"
  by (induction ps arbitrary: nb) (auto simp: distinctKeys_def distinct_update split_beta)

lemma distinctKeys_cloneBoard: "cloneBoard b = Some nb \<Longrightarrow> distinctKeys nb"
proof -
  assume c: "cloneBoard b = Some nb"
  let ?nb0 = "Board_new\<lparr>castlingRights :=
                   \<lparr>long = \<lparr>white = flag (long (castlingRights b)) WHITE,
                            black = flag (long (castlingRights b)) BLACK\<rparr>,
                    short = \<lparr>white = flag (short (castlingRights b)) WHITE,
                             black = flag (short (castlingRights b)) BLACK\<rparr>\<rparr>,
                 enPassantSquare := enPassantSquare b\<rparr>"
  have "distinctKeys ?nb0" by (simp add: distinctKeys_def Board_new_def)
  from distinctKeys_cloneFold [OF this, of "pieces b"] c show ?thesis
    by (auto simp: cloneBoard_def Let_def distinctKeys_def split: option.splits)
qed

lemma distinctKeys_afterMove:
  "afterMove a b p m = Some (b', m') \<Longrightarrow> distinctKeys b \<Longrightarrow> distinctKeys b'"
  by (cases "type p")
     (auto simp: afterMove_def Pawn_afterMove_def Rook_afterMove_def King_afterMove_def
        Piece_afterMove_def Let_def distinctKeys_def setPiece_def removePieceAt_def
        distinct_update distinct_delete split: option.splits if_splits prod.splits)

lemma distinctKeys_makeMoveIfValid:
  assumes "makeMoveIfValid att a b src dest ex = Some (ok, b')" "distinctKeys b"
  shows "distinctKeys b'"
proof (cases ok)
  case False
  with assms show ?thesis
    by (auto simp: makeMoveIfValid_def Let_def split: option.splits bool.splits if_splits prod.splits)
next
  case True
  with assms(1) obtain piece b4 lm where
    am: "afterMove a (setPiece (removePieceAt
            (if getPiece b dest \<noteq> None then removePieceAt b dest else b) src)
            (updateLocation (removePieceAt
               (if getPiece b dest \<noteq> None then removePieceAt b dest else b) src) piece dest))
          (updateLocation (removePieceAt
               (if getPiece b dest \<noteq> None then removePieceAt b dest else b) src) piece dest)
          \<lparr>move_piece = Some (updateLocation (removePieceAt
               (if getPiece b dest \<noteq> None then removePieceAt b dest else b) src) piece dest),
           move_from = src, move_to = dest, move_capture = (getPiece b dest \<noteq> None),
           move_extra = ex\<rparr> = Some (b4, lm)"
    and b': "b' = (recalculateAllPiecesMoves b4)\<lparr>lastMove := Some lm, highlightedSquares := [dest, src]\<rparr>"
    by (auto simp: makeMoveIfValid_def Let_def split: option.splits bool.splits if_splits prod.splits)
  have "distinctKeys (setPiece (removePieceAt
            (if getPiece b dest \<noteq> None then removePieceAt b dest else b) src)
            (updateLocation (removePieceAt
               (if getPiece b dest \<noteq> None then removePieceAt b dest else b) src) piece dest))"
    using assms(2) by simp
  from distinctKeys_afterMove [OF am this] b' show ?thesis
    using distinctKeys_recalculateAllPiecesMoves [of b4]
    by (simp add: distinctKeys_def)
qed

lemma asString_inj:
  "isValid s \<Longrightarrow> isValid t \<Longrightarrow> asString s = asString t \<Longrightarrow> s = t"
  by (cases s; cases t) (auto simp: asString_valid isValid_def)

lemma list_all_update:
  "list_all P ps \<Longrightarrow> P (k, v) \<Longrightarrow> list_all P (AList.update k v ps)"
  by (induction ps) auto

lemma list_all_delete: "list_all P ps \<Longrightarrow> list_all P (AList.delete k ps)"
  by (induction ps) auto

lemma placedKeys_setPiece [simp]:
  "placedKeys b \<Longrightarrow> isValid (location p) \<Longrightarrow> placedKeys (setPiece b p)"
  by (simp add: placedKeys_def setPiece_def list_all_update)

lemma placedKeys_removePieceAt [simp]: "placedKeys b \<Longrightarrow> placedKeys (removePieceAt b sq)"
  by (simp add: placedKeys_def removePieceAt_def list_all_delete)

lemma placedKeys_recalculateAllPiecesMoves [simp]:
  "placedKeys (recalculateAllPiecesMoves b) = placedKeys b"
  by (simp add: placedKeys_def recalculateAllPiecesMoves_def list_all_iff split_beta)

lemma placedKeys_place [simp]: "placedKeys b \<Longrightarrow> isValid sq \<Longrightarrow> placedKeys (place b t c sq)"
  by (simp add: place_def)

lemma placedKeys_getPiece:
  assumes "placedKeys b" "getPiece b sq = Some p"
  shows "isValid (location p) \<and> asString (location p) = asString sq"
proof -
  from assms(2) have "(asString sq, p) \<in> set (pieces b)"
    by (simp add: getPiece_def map_of_SomeD)
  with assms(1) show ?thesis by (auto simp: placedKeys_def list_all_iff)
qed

lemma placedKeys_getPiece_valid:
  "placedKeys b \<Longrightarrow> getPiece b sq = Some p \<Longrightarrow> isValid sq \<Longrightarrow> location p = sq"
  using placedKeys_getPiece asString_inj by blast

lemma placedKeys_cloneFold:
  "placedKeys nb \<Longrightarrow>
   list_all (\<lambda>(k, p). isValid (location p) \<and> k = asString (location p)) ps \<Longrightarrow>
   placedKeys (foldl (\<lambda>nb (loc, p).
      nb\<lparr>pieces := AList.update loc (cloneToAnotherBoard p nb) (pieces nb)\<rparr>) nb ps)"
  by (induction ps arbitrary: nb)
     (auto simp: placedKeys_def list_all_update cloneToAnotherBoard_def split_beta)

lemma placedKeys_cloneBoard:
  assumes "cloneBoard b = Some nb" "placedKeys b"
  shows "placedKeys nb"
proof -
  let ?nb0 = "Board_new\<lparr>castlingRights :=
                   \<lparr>long = \<lparr>white = flag (long (castlingRights b)) WHITE,
                            black = flag (long (castlingRights b)) BLACK\<rparr>,
                    short = \<lparr>white = flag (short (castlingRights b)) WHITE,
                             black = flag (short (castlingRights b)) BLACK\<rparr>\<rparr>,
                 enPassantSquare := enPassantSquare b\<rparr>"
  have "placedKeys ?nb0" by (simp add: placedKeys_def Board_new_def)
  from placedKeys_cloneFold [OF this, of "pieces b"] assms show ?thesis
    by (auto simp: cloneBoard_def Let_def placedKeys_def split: option.splits)
qed

lemma isMoveValid_valid_dest:
  "isMoveValid att b p dest ex = Some True \<Longrightarrow> isValid dest"
  by (cases "type p")
     (auto simp: isMoveValid_def Pawn_isMoveValid_def Rook_isMoveValid_def Knight_isMoveValid_def
        Bishop_isMoveValid_def Queen_isMoveValid_def King_isMoveValid_def Piece_isMoveValid_def
        split: if_splits)

lemma placedKeys_afterMove:
  assumes "afterMove a b p m = Some (b', m')" "placedKeys b" "isValid (move_to m)"
    "isValid (location p)"
  shows "placedKeys b'"
proof (cases "type p")
  case PAWN
  with assms show ?thesis
    by (auto simp: afterMove_def Pawn_afterMove_def Piece_afterMove_def Let_def placedKeys_def
          setPiece_def removePieceAt_def list_all_update list_all_delete split: if_splits)
next
  case ROOK
  with assms show ?thesis
    by (auto simp: afterMove_def Rook_afterMove_def Piece_afterMove_def Let_def placedKeys_def)
next
  case KING
  have v: "isValid (Square_new 6 (rankNumber (location p)))"
    "isValid (Square_new 4 (rankNumber (location p)))"
    using assms(4) by (auto simp: isValid_def Square_new_def)
  from KING assms v show ?thesis
    by (auto simp: afterMove_def King_afterMove_def Piece_afterMove_def Let_def placedKeys_def
          setPiece_def removePieceAt_def updateLocation_def list_all_update list_all_delete
          split: if_splits option.splits)
qed (use assms in \<open>auto simp: afterMove_def Piece_afterMove_def placedKeys_def\<close>)

lemma placedKeys_makeMoveIfValid:
  assumes "makeMoveIfValid att a b src dest ex = Some (ok, b')" "placedKeys b"
  shows "placedKeys b'"
proof (cases ok)
  case False
  with assms show ?thesis
    by (auto simp: makeMoveIfValid_def Let_def split: option.splits bool.splits if_splits prod.splits)
next
  case True
  let ?b2 = "removePieceAt (if getPiece b dest \<noteq> None then removePieceAt b dest else b) src"
  from True assms(1) obtain piece b4 lm where
    v: "isMoveValid att b piece dest ex = Some True"
    and am: "afterMove a (setPiece ?b2 (updateLocation ?b2 piece dest))
          (updateLocation ?b2 piece dest)
          \<lparr>move_piece = Some (updateLocation ?b2 piece dest),
           move_from = src, move_to = dest, move_capture = (getPiece b dest \<noteq> None),
           move_extra = ex\<rparr> = Some (b4, lm)"
    and b': "b' = (recalculateAllPiecesMoves b4)\<lparr>lastMove := Some lm, highlightedSquares := [dest, src]\<rparr>"
    by (auto simp: makeMoveIfValid_def Let_def split: option.splits bool.splits if_splits prod.splits)
  from isMoveValid_valid_dest [OF v] have d: "isValid dest" .
  have "placedKeys (setPiece ?b2 (updateLocation ?b2 piece dest))"
    using assms(2) d by (simp add: updateLocation_def)
  from placedKeys_afterMove [OF am this] d b' show ?thesis
    using placedKeys_recalculateAllPiecesMoves [of b4]
    by (simp add: placedKeys_def updateLocation_def)
qed

lemma wellKeyed_stateVariant:
  "stateVariant s s' \<Longrightarrow> wellKeyed (board s') = wellKeyed (board s)"
  by (auto simp: stateVariant_def cacheVariant_def wellKeyed_def distinctKeys_def placedKeys_def)

lemma wellKeyed_history_variant:
  "list_all2 stateVariant xs ys \<Longrightarrow>
   list_all (\<lambda>s. wellKeyed (board s)) ys = list_all (\<lambda>s. wellKeyed (board s)) xs"
  by (induction xs ys rule: list_all2_induct) (auto simp: wellKeyed_stateVariant)

lemma gameKeys_concludeMove:
  "concludeMove att a g = Some g' \<Longrightarrow> gameKeys g' = gameKeys g"
  using concludeMove_variant [of att a g g']
  by (auto simp: gameKeys_def wellKeyed_stateVariant wellKeyed_history_variant)

lemma gameKeys_makeMove:
  assumes "makeMove att a g src dest ex = Some (r, g')" "gameKeys g"
  shows "gameKeys g'"
proof (cases "r = MOVE_OK")
  case False
  with assms(1) have "g' = g"
    by (auto simp: makeMove_def Let_def split: if_splits option.splits bool.splits prod.splits)
  with assms(2) show ?thesis by simp
next
  case True
  with assms(1) have "makeMove att a g src dest ex = Some (MOVE_OK, g')" by simp
  from makeMove_OK [OF this] obtain piece :: Piece and newBoard nb lm where
    cl: "cloneBoard (board (currentState g)) = Some newBoard"
    and mv: "makeMoveIfValid att a newBoard (location piece) dest ex = Some (True, nb)"
    and c: "concludeMove att a (installed g nb lm) = Some g'"
    by blast
  from assms(2) have "placedKeys (board (currentState g))"
    by (simp add: gameKeys_def wellKeyed_def)
  from placedKeys_makeMoveIfValid [OF mv placedKeys_cloneBoard [OF cl this]]
    distinctKeys_makeMoveIfValid [OF mv distinctKeys_cloneBoard [OF cl]]
  have "gameKeys (installed g nb lm)"
    using assms(2) by (simp add: gameKeys_def wellKeyed_def installed_def)
  with gameKeys_concludeMove [OF c] show ?thesis by simp
qed

lemma gameKeys_takebackMove:
  assumes "takebackMove g = (t, g')" "gameKeys g"
  shows "gameKeys g'"
proof (cases "result g \<noteq> ONGOING \<or> length (stateHistory g) = 0")
  case True
  with assms show ?thesis by (auto simp: takebackMove_def)
next
  case False
  then have ne: "stateHistory g \<noteq> []" by auto
  from assms(2) have all: "list_all (\<lambda>s. wellKeyed (board s)) (stateHistory g)"
    by (simp add: gameKeys_def)
  have "list_all (\<lambda>s. wellKeyed (board s)) (butlast (stateHistory g))"
    using all by (auto simp: list_all_iff dest: in_set_butlastD)
  moreover have "wellKeyed (board (last (stateHistory g)))"
    using all ne by (auto simp: list_all_iff)
  ultimately show ?thesis
    using assms(1) False by (auto simp: takebackMove_def Let_def gameKeys_def wellKeyed_def)
qed

lemma gameKeys_resign: "resign g c = (t, g') \<Longrightarrow> gameKeys g \<Longrightarrow> gameKeys g'"
  by (auto simp: resign_def gameKeys_def split: if_splits)

lemma gameKeys_offerDraw: "offerDraw g c = (t, g') \<Longrightarrow> gameKeys g \<Longrightarrow> gameKeys g'"
  by (auto simp: offerDraw_def gameKeys_def Let_def split: if_splits)

lemma wellKeyed_place [simp]: "wellKeyed b \<Longrightarrow> isValid sq \<Longrightarrow> wellKeyed (place b t c sq)"
  by (simp add: wellKeyed_def)

lemma wellKeyed_setupInitialPieces [simp]:
  "wellKeyed b \<Longrightarrow> wellKeyed (setupInitialPieces b c)"
  by (simp add: setupInitialPieces_def Let_def Square_new_simps)

lemma wellKeyed_setupInitialPawns [simp]:
  "wellKeyed b \<Longrightarrow> wellKeyed (setupInitialPawns b c)"
  by (simp add: setupInitialPawns_def Let_def Square_new_simps)

lemma gameKeys_reset: "gameKeys reset"
proof -
  have "wellKeyed (Board_new\<lparr>pieces := [],
                 castlingRights :=
                   \<lparr>long = \<lparr>white = True, black = True\<rparr>, short = \<lparr>white = True, black = True\<rparr>\<rparr>,
                 highlightedSquares := [],
                 lastMove := None,
                 enPassantSquare := None\<rparr>)"
    by (simp add: wellKeyed_def distinctKeys_def placedKeys_def)
  then show ?thesis
    by (simp add: gameKeys_def reset_def setupDefaultBoard_def Let_def)
qed

lemma reachable_gameKeys: "reachable g \<Longrightarrow> gameKeys g"
  by (induction rule: reachable.induct)
     (auto intro: gameKeys_reset gameKeys_makeMove gameKeys_takebackMove gameKeys_resign
        gameKeys_offerDraw)

text \<open>
  \<open>recalculateAllPiecesMoves\<close> leaves every piece under its key, with its type, its
  color and its square, and does not read the hash cache.
\<close>

lemma recalculateValidMoves_variant:
  "cacheVariant b b' \<Longrightarrow> recalculateValidMoves b' p = recalculateValidMoves b p"
  by (cases "type p")
     (auto simp: cacheVariant_def recalculateValidMoves_def King_recalculateValidMoves_def)

lemma recalculateAllPiecesMoves_variant:
  assumes "cacheVariant b b'"
  shows "cacheVariant (recalculateAllPiecesMoves b) (recalculateAllPiecesMoves b')"
proof -
  from assms obtain d h where b': "b' = b\<lparr>dirty := d, hash := h\<rparr>"
    by (auto simp: cacheVariant_def)
  have "recalculateAllPiecesMoves b' = (recalculateAllPiecesMoves b)\<lparr>dirty := d, hash := h\<rparr>"
    using recalculateValidMoves_variant [OF assms]
    by (simp add: recalculateAllPiecesMoves_def b')
  then show ?thesis unfolding cacheVariant_def by blast
qed

lemma recalculateAllPiecesMoves_position:
  "map (\<lambda>(k, p). (k, type p, color p, location p)) (pieces (recalculateAllPiecesMoves b)) =
   map (\<lambda>(k, p). (k, type p, color p, location p)) (pieces b)"
  by (simp add: recalculateAllPiecesMoves_def split_beta comp_def)

lemma Board_equals_recalculated2:
  assumes "cacheVariant b b'" "distinct (map fst (pieces b))"
  shows "Board_equals b (recalculateAllPiecesMoves b')"
proof -
  from assms(1) have f: "pieces b' = pieces b" "castlingRights b' = castlingRights b"
    "enPassantSquare b' = enPassantSquare b"
    using cacheVariant_fields by blast+
  let ?ps = "map (\<lambda>(loc, p). (loc, recalculateValidMoves b' p)) (pieces b)"
  have d: "distinct (map fst ?ps)" using assms(2) by (simp add: split_beta comp_def)
  have "\<exists>p2. map_of ?ps k = Some p2 \<and> color p = color p2 \<and> type p = type p2"
    if "(k, p) \<in> set (pieces b)" for k p
  proof -
    from that have "(k, recalculateValidMoves b' p) \<in> set ?ps" by force
    with d have "map_of ?ps k = Some (recalculateValidMoves b' p)" by simp
    then show ?thesis by simp
  qed
  then show ?thesis
    by (auto simp: Board_equals_iff recalculateAllPiecesMoves_def f)
qed

text \<open>A move is taken back.\<close>

lemma takeback_after_move:
  assumes "makeMove att a g src dest ex = Some (MOVE_OK, g1)"
    and "result g1 = ONGOING"
    and "distinct (map fst (pieces (board (currentState g))))"
  shows "\<exists>g2. takebackMove g1 = (None, g2) \<and>
              stateVariant
                ((currentState g)\<lparr>board := recalculateAllPiecesMoves (board (currentState g))\<rparr>)
                (currentState g2) \<and>
              list_all2 stateVariant (stateHistory g) (stateHistory g2) \<and>
              result g2 = result g \<and>
              map (\<lambda>(k, p). (k, type p, color p, location p)) (pieces (board (currentState g2))) =
              map (\<lambda>(k, p). (k, type p, color p, location p)) (pieces (board (currentState g))) \<and>
              castlingRights (board (currentState g2)) = castlingRights (board (currentState g)) \<and>
              enPassantSquare (board (currentState g2)) = enPassantSquare (board (currentState g)) \<and>
              lastMove (board (currentState g2)) = lastMove (board (currentState g)) \<and>
              Board_equals (board (currentState g2)) (board (currentState g)) \<and>
              Board_equals (board (currentState g)) (board (currentState g2)) \<and>
              currentTurn (currentState g2) = currentTurn (currentState g) \<and>
              halfMoveClock (currentState g2) = halfMoveClock (currentState g) \<and>
              length (stateHistory g2) = length (stateHistory g) \<and>
              (\<exists>piece. getPiece (board (currentState g)) src = Some piece \<and>
                       color piece = currentTurn (currentState g2))"
proof -
  let ?b = "board (currentState g)"
  from makeMove_OK [OF assms(1)] obtain piece nb lm where
    r: "result g = ONGOING"
    and p: "getPiece ?b src = Some piece" "color piece = currentTurn (currentState g)"
    and c: "concludeMove att a (installed g nb lm) = Some g1"
    by blast
  from concludeMove_variant [OF c]
  have h: "list_all2 stateVariant (stateHistory g @ [currentState g]) (stateHistory g1)"
    by (simp add: installed_def)
  then have len: "length (stateHistory g1) = Suc (length (stateHistory g))"
    by (auto dest: list_all2_lengthD)
  then have ne: "stateHistory g1 \<noteq> []" by auto
  from h obtain us vs where uv: "stateHistory g1 = us @ vs"
    "length us = length (stateHistory g)" "length vs = length [currentState g]"
    "list_all2 stateVariant (stateHistory g) us"
    "list_all2 stateVariant [currentState g] vs"
    unfolding list_all2_append1 by blast
  then obtain v where v: "vs = [v]" "stateVariant (currentState g) v"
    by (cases vs) auto
  with uv have l: "stateVariant (currentState g) (last (stateHistory g1))"
    and bl: "butlast (stateHistory g1) = us"
    by simp_all
  from l obtain b' where b': "cacheVariant ?b b'"
    "last (stateHistory g1) = (currentState g)\<lparr>board := b'\<rparr>"
    by (auto simp: stateVariant_def)
  let ?g2 = "g1\<lparr>stateHistory := butlast (stateHistory g1),
                currentState := (last (stateHistory g1))
                   \<lparr>board := recalculateAllPiecesMoves (board (last (stateHistory g1)))\<rparr>\<rparr>"
  have tb: "takebackMove g1 = (None, ?g2)"
    using assms(2) ne by (simp add: takebackMove_def Let_def)
  have cs: "currentState ?g2 = (currentState g)\<lparr>board := recalculateAllPiecesMoves b'\<rparr>"
    using b'(2) by simp
  have cv: "cacheVariant (recalculateAllPiecesMoves ?b) (recalculateAllPiecesMoves b')"
    using recalculateAllPiecesMoves_variant [OF b'(1)] .
  have sv: "stateVariant ((currentState g)\<lparr>board := recalculateAllPiecesMoves ?b\<rparr>) (currentState ?g2)"
    unfolding stateVariant_def cs
    by (rule exI [of _ "recalculateAllPiecesMoves b'"]) (simp add: cv)
  have hist: "list_all2 stateVariant (stateHistory g) (stateHistory ?g2)"
    using uv(4) bl by simp
  have res: "result ?g2 = result g" using assms(2) r by simp
  have f: "pieces b' = pieces ?b" "castlingRights b' = castlingRights ?b"
    "enPassantSquare b' = enPassantSquare ?b" "lastMove b' = lastMove ?b"
    using cacheVariant_fields [OF b'(1)] by simp_all
  have pos: "map (\<lambda>(k, p). (k, type p, color p, location p)) (pieces (board (currentState ?g2))) =
             map (\<lambda>(k, p). (k, type p, color p, location p)) (pieces ?b)"
    unfolding cs using recalculateAllPiecesMoves_position [of b'] f(1) by simp
  have rest: "castlingRights (board (currentState ?g2)) = castlingRights ?b"
    "enPassantSquare (board (currentState ?g2)) = enPassantSquare ?b"
    "lastMove (board (currentState ?g2)) = lastMove ?b"
    unfolding cs using f by (simp_all add: recalculateAllPiecesMoves_def)
  have e1: "Board_equals (board (currentState ?g2)) ?b"
    using Board_equals_recalculated [OF b'(1) assms(3)] b'(2) by simp
  have e2: "Board_equals ?b (board (currentState ?g2))"
    using Board_equals_recalculated2 [OF b'(1) assms(3)] b'(2) by simp
  have t: "currentTurn (currentState ?g2) = currentTurn (currentState g)"
    "halfMoveClock (currentState ?g2) = halfMoveClock (currentState g)"
    using b'(2) by simp_all
  have ln: "length (stateHistory ?g2) = length (stateHistory g)"
    using len by simp
  from tb sv hist res pos rest e1 e2 t ln p show ?thesis
    by (intro exI [of _ ?g2] conjI) (simp_all only: t, auto)
qed

text \<open>
  C7, as the code has it: when a successful \<open>makeMove\<close> leaves the game \<open>ONGOING\<close>, a
  \<open>takebackMove\<close> right after it brings back the state before the move.  The current
  state is the state before the move with the candidate moves of its board recalculated,
  up to the hash cache of the board: the same keys in the same order, with pieces of the
  same type and color on the same squares, the same castling rights, en passant square
  and last move, the same turn (the color of the piece that has moved) and half-move
  clock.  The history is the history before the move, up to the hash caches, and the game
  is ongoing.  The board \<open>equals\<close> the board before the move, and the board before the
  move \<open>equals\<close> it.  The keys of \<open>_pieces\<close> are the properties of an object, so no key
  occurs twice.
\<close>

theorem takebackMove_restores:
  assumes "makeMove att a g src dest ex = Some (MOVE_OK, g1)"
    and "result g1 = ONGOING"
    and "distinct (map fst (pieces (board (currentState g))))"
  shows "\<exists>g2. takebackMove g1 = (None, g2) \<and>
              stateVariant
                ((currentState g)\<lparr>board := recalculateAllPiecesMoves (board (currentState g))\<rparr>)
                (currentState g2) \<and>
              list_all2 stateVariant (stateHistory g) (stateHistory g2) \<and>
              result g2 = result g \<and>
              map (\<lambda>(k, p). (k, type p, color p, location p)) (pieces (board (currentState g2))) =
              map (\<lambda>(k, p). (k, type p, color p, location p)) (pieces (board (currentState g))) \<and>
              castlingRights (board (currentState g2)) = castlingRights (board (currentState g)) \<and>
              enPassantSquare (board (currentState g2)) = enPassantSquare (board (currentState g)) \<and>
              lastMove (board (currentState g2)) = lastMove (board (currentState g)) \<and>
              Board_equals (board (currentState g2)) (board (currentState g)) \<and>
              Board_equals (board (currentState g)) (board (currentState g2)) \<and>
              currentTurn (currentState g2) = currentTurn (currentState g) \<and>
              halfMoveClock (currentState g2) = halfMoveClock (currentState g) \<and>
              length (stateHistory g2) = length (stateHistory g) \<and>
              (\<exists>piece. getPiece (board (currentState g)) src = Some piece \<and>
                       color piece = currentTurn (currentState g2))"
  using assms by (rule takeback_after_move)

text \<open>In a game made of a new game by the operations of \<open>Game\<close>, no key occurs twice.\<close>

lemma takeback_after_move_reachable:
  assumes "reachable g"
    and "makeMove att a g src dest ex = Some (MOVE_OK, g1)"
    and "result g1 = ONGOING"
  shows "\<exists>g2. takebackMove g1 = (None, g2) \<and>
              stateVariant
                ((currentState g)\<lparr>board := recalculateAllPiecesMoves (board (currentState g))\<rparr>)
                (currentState g2) \<and>
              list_all2 stateVariant (stateHistory g) (stateHistory g2) \<and>
              Board_equals (board (currentState g2)) (board (currentState g)) \<and>
              Board_equals (board (currentState g)) (board (currentState g2)) \<and>
              currentTurn (currentState g2) = currentTurn (currentState g)"
proof -
  from reachable_gameKeys [OF assms(1)]
  have "distinct (map fst (pieces (board (currentState g))))"
    by (simp add: gameKeys_def wellKeyed_def distinctKeys_def)
  from takeback_after_move [OF assms(2) assms(3) this] show ?thesis by blast
qed

text \<open>The rook moves from A1 to A2 on \<open>rookEnding\<close>, and the move is taken back.\<close>

theorem takebackMove_restores_witness:
  "\<exists>g1 g2. makeMove (isAttacked 3) 0 (gameOn rookEnding WHITE 0) (Square_new 1 1) (Square_new 1 2)
              None = Some (MOVE_OK, g1) \<and>
           map_option type (getPiece (board (currentState g1)) (Square_new 1 1)) = None \<and>
           map_option type (getPiece (board (currentState g1)) (Square_new 1 2)) = Some ROOK \<and>
           result g1 = ONGOING \<and> takebackMove g1 = (None, g2) \<and>
           map (\<lambda>(k, p). (k, type p, color p, location p)) (pieces (board (currentState g2))) =
             [(str ''E1'', KING, WHITE, Square_new 5 1), (str ''E8'', KING, BLACK, Square_new 5 8),
              (str ''A1'', ROOK, WHITE, Square_new 1 1)] \<and>
           Board_equals (board (currentState g2)) rookEnding \<and>
           Board_equals rookEnding (board (currentState g2)) \<and>
           currentTurn (currentState g2) = WHITE \<and> halfMoveClock (currentState g2) = 0 \<and>
           stateHistory g2 = [] \<and> result g2 = ONGOING"
proof -
  let ?g = "gameOn rookEnding WHITE 0"
  let ?x = "makeMove (isAttacked 3) 0 ?g (Square_new 1 1) (Square_new 1 2) None"
  have "map_option fst ?x = Some MOVE_OK" by code_simp
  then have 1: "?x = Some (MOVE_OK, snd (the ?x))" by (rule eval_ok)
  have 2: "result (snd (the ?x)) = ONGOING" by code_simp
  have 3: "distinct (map fst (pieces (board (currentState ?g))))" by code_simp
  have 4: "map (\<lambda>(k, p). (k, type p, color p, location p)) (pieces rookEnding) =
             [(str ''E1'', KING, WHITE, Square_new 5 1), (str ''E8'', KING, BLACK, Square_new 5 8),
              (str ''A1'', ROOK, WHITE, Square_new 1 1)]"
    by code_simp
  have 5: "map_option type (getPiece (board (currentState (snd (the ?x)))) (Square_new 1 1)) = None"
    by code_simp
  have 6: "map_option type (getPiece (board (currentState (snd (the ?x)))) (Square_new 1 2)) =
             Some ROOK"
    by code_simp
  from takebackMove_restores [OF 1 2 3] obtain g2 where
    g2: "takebackMove (snd (the ?x)) = (None, g2)"
      "list_all2 stateVariant (stateHistory ?g) (stateHistory g2)"
      "result g2 = result ?g"
      "map (\<lambda>(k, p). (k, type p, color p, location p)) (pieces (board (currentState g2))) =
       map (\<lambda>(k, p). (k, type p, color p, location p)) (pieces (board (currentState ?g)))"
      "Board_equals (board (currentState g2)) (board (currentState ?g))"
      "Board_equals (board (currentState ?g)) (board (currentState g2))"
      "currentTurn (currentState g2) = currentTurn (currentState ?g)"
      "halfMoveClock (currentState g2) = halfMoveClock (currentState ?g)"
    by blast
  have b: "board (currentState ?g) = rookEnding" "stateHistory ?g = []" "result ?g = ONGOING"
    "currentTurn (currentState ?g) = WHITE" "halfMoveClock (currentState ?g) = 0"
    by (simp_all add: gameOn_def)
  from g2(2) have 7: "stateHistory g2 = []" unfolding b by simp
  from g2(4) have 8: "map (\<lambda>(k, p). (k, type p, color p, location p))
                        (pieces (board (currentState g2))) =
             [(str ''E1'', KING, WHITE, Square_new 5 1), (str ''E8'', KING, BLACK, Square_new 5 8),
              (str ''A1'', ROOK, WHITE, Square_new 1 1)]"
    unfolding b 4 .
  note h = g2(1,3,5,6,7,8) [unfolded b]
  show ?thesis
    by (rule exI [of _ "snd (the ?x)"], rule exI [of _ g2], intro conjI)
       (rule 1 2 5 6 7 8 h)+
qed

text \<open>
  C7 as stated speaks of any successful move.  The king takes the rook on
  \<open>rookEnPrise\<close>: the move succeeds and ends the game (insufficient material), and
  \<open>takebackMove\<close> returns \<open>false\<close> and leaves the board of after the move and the turn
  of Black.
\<close>

theorem takebackMove_concluded_counterexample:
  "map_option fst rookTaken = Some MOVE_OK \<and>
   result (snd (the rookTaken)) = INSUFFICIENT_MATERIAL \<and>
   takebackMove (snd (the rookTaken)) = (Some False, snd (the rookTaken)) \<and>
   \<not> Board_equals (board (currentState (snd (takebackMove (snd (the rookTaken)))))) rookEnPrise \<and>
   currentTurn (currentState (snd (takebackMove (snd (the rookTaken))))) = BLACK \<and>
   currentTurn (currentState (gameOn rookEnPrise WHITE 0)) = WHITE"
  by code_simp


section \<open>Castling on the board of a game\<close>

text \<open>
  Where every piece is kept under the name of its square, the rook that
  \<open>validateCanCastle\<close> finds stands on the corner, and the path to it is the squares
  between the king and the corner.
\<close>

lemma castling_short_squares:
  assumes "placedKeys b" "isValid (location k)"
    and "King_isMoveValid att b k dest = Some True"
    and "fileNumber dest = fileNumber (location k) + 2"
  shows "location k = Square_new 5 (if color k = WHITE then 1 else 8) \<and>
         getPiece b (Square_new 6 (rankNumber (location k))) = None \<and>
         getPiece b (Square_new 7 (rankNumber (location k))) = None"
proof -
  let ?r = "rankNumber (location k)"
  from assms(3,4) have "canCastleShort att b k = Some True"
    by (auto simp: King_isMoveValid_def split: if_splits)
  then have "validateCanCastle att b k (getPiece b (Square_new 8 ?r)) = Some True"
    by (auto simp: canCastleShort_def Square_of_letter_def split: if_splits option.splits bool.splits)
  from validateCanCastle_True [OF this] obtain r where
    h: "asString (location k) = (if color k = WHITE then str ''E1'' else str ''E8'')"
    and r: "getPiece b (Square_new 8 ?r) = Some r"
    and pc: "isPathClear b (pathTo (location k) (location r))"
    by auto
  from asString_home [OF assms(2) h]
  have l: "location k = Square_new 5 (if color k = WHITE then 1 else 8)" .
  then have rk: "?r = 1 \<or> ?r = 8" by (auto simp: Square_new_def)
  then have "isValid (Square_new 8 ?r)" by (auto simp: isValid_def Square_new_def)
  from placedKeys_getPiece_valid [OF assms(1) r this]
  have lr: "location r = Square_new 8 ?r" .
  have "location k = Square_new 5 ?r" using l by (auto simp: Square_new_def)
  with pc lr pathTo_short [OF rk] l show ?thesis
    by (simp add: isPathClear_def)
qed

lemma castling_long_squares:
  assumes "placedKeys b" "isValid (location k)"
    and "King_isMoveValid att b k dest = Some True"
    and "fileNumber dest = fileNumber (location k) - 2"
  shows "location k = Square_new 5 (if color k = WHITE then 1 else 8) \<and>
         getPiece b (Square_new 4 (rankNumber (location k))) = None \<and>
         getPiece b (Square_new 3 (rankNumber (location k))) = None \<and>
         getPiece b (Square_new 2 (rankNumber (location k))) = None"
proof -
  let ?r = "rankNumber (location k)"
  from assms(3,4) have "canCastleLong att b k = Some True"
    by (auto simp: King_isMoveValid_def split: if_splits)
  then have "validateCanCastle att b k (getPiece b (Square_new 1 ?r)) = Some True"
    by (auto simp: canCastleLong_def Square_of_letter_def split: if_splits option.splits bool.splits)
  from validateCanCastle_True [OF this] obtain r where
    h: "asString (location k) = (if color k = WHITE then str ''E1'' else str ''E8'')"
    and r: "getPiece b (Square_new 1 ?r) = Some r"
    and pc: "isPathClear b (pathTo (location k) (location r))"
    by auto
  from asString_home [OF assms(2) h]
  have l: "location k = Square_new 5 (if color k = WHITE then 1 else 8)" .
  then have rk: "?r = 1 \<or> ?r = 8" by (auto simp: Square_new_def)
  then have "isValid (Square_new 1 ?r)" by (auto simp: isValid_def Square_new_def)
  from placedKeys_getPiece_valid [OF assms(1) r this]
  have lr: "location r = Square_new 1 ?r" .
  have "location k = Square_new 5 ?r" using l by (auto simp: Square_new_def)
  with pc lr pathTo_long [OF rk] l show ?thesis
    by (simp add: isPathClear_def)
qed

lemma cloneFold_rights:
  "castlingRights (foldl (\<lambda>nb (loc, p).
      nb\<lparr>pieces := AList.update loc (cloneToAnotherBoard p nb) (pieces nb)\<rparr>) nb ps) =
   castlingRights nb"
  by (induction ps arbitrary: nb) (auto simp: split_beta)

lemma cloneBoard_rights:
  "cloneBoard b = Some nb \<Longrightarrow> castlingRights nb = castlingRights b"
  by (auto simp: cloneBoard_def Let_def cloneFold_rights flag_def split: option.splits)

lemma afterMove_rights:
  assumes "afterMove a b p m = Some (b', m')"
  shows "(flag (short (castlingRights b')) c \<longrightarrow> flag (short (castlingRights b)) c) \<and>
         (flag (long (castlingRights b')) c \<longrightarrow> flag (long (castlingRights b)) c)"
  using assms
  by (cases "type p"; cases c; cases "color p")
     (auto simp: afterMove_def Pawn_afterMove_def Rook_afterMove_def King_afterMove_def
        Piece_afterMove_def Let_def flag_def set_flag_def setPiece_def removePieceAt_def
        split: if_splits option.splits)

lemma afterMove_king:
  assumes "afterMove a b p m = Some (b', m')" "type p = KING"
  shows "\<not> flag (short (castlingRights b')) (color p) \<and>
         \<not> flag (long (castlingRights b')) (color p)"
  using assms King_afterMove_revokes [of b p m b']
  by (auto simp: afterMove_def)

lemma afterMove_rook:
  assumes "afterMove a b p m = Some (b', m')" "type p = ROOK"
  shows "(fileNumber (move_from m) = 8 \<longrightarrow> \<not> flag (short (castlingRights b')) (color p)) \<and>
         (fileNumber (move_from m) = 1 \<longrightarrow> \<not> flag (long (castlingRights b')) (color p))"
  using assms Rook_afterMove_revokes [of m b p]
  by (auto simp: afterMove_def)

lemma makeMoveIfValid_True:
  assumes "makeMoveIfValid att a b src dest ex = Some (True, b')"
  shows "\<exists>piece piece' b3 b4 m lm.
           getPiece b src = Some piece \<and>
           isMoveValid att b piece dest ex = Some True \<and>
           type piece' = type piece \<and> color piece' = color piece \<and>
           castlingRights b3 = castlingRights b \<and> move_from m = src \<and>
           afterMove a b3 piece' m = Some (b4, lm) \<and>
           castlingRights b' = castlingRights b4"
proof -
  let ?b2 = "removePieceAt (if getPiece b dest \<noteq> None then removePieceAt b dest else b) src"
  let ?p = "\<lambda>piece. updateLocation ?b2 piece dest"
  let ?m = "\<lambda>piece. \<lparr>move_piece = Some (?p piece), move_from = src, move_to = dest,
                   move_capture = (getPiece b dest \<noteq> None), move_extra = ex\<rparr>"
  from assms obtain piece b4 lm where
    p: "getPiece b src = Some piece"
    and v: "isMoveValid att b piece dest ex = Some True"
    and am: "afterMove a (setPiece ?b2 (?p piece)) (?p piece) (?m piece) = Some (b4, lm)"
    and b': "b' = (recalculateAllPiecesMoves b4)\<lparr>lastMove := Some lm, highlightedSquares := [dest, src]\<rparr>"
    by (auto simp: makeMoveIfValid_def Let_def split: option.splits bool.splits if_splits prod.splits)
  have 1: "type (?p piece) = type piece" "color (?p piece) = color piece"
    by (simp_all add: updateLocation_def)
  have 2: "castlingRights (setPiece ?b2 (?p piece)) = castlingRights b"
    by (simp add: setPiece_def removePieceAt_def)
  have 3: "move_from (?m piece) = src" by simp
  have 4: "castlingRights b' = castlingRights b4"
    using b' by (simp add: recalculateAllPiecesMoves_def)
  from p v 1 2 3 am 4 show ?thesis by blast
qed

text \<open>No move gives a castling right back.\<close>

lemma makeMoveIfValid_rights:
  assumes "makeMoveIfValid att a b src dest ex = Some (ok, b')"
  shows "(flag (short (castlingRights b')) c \<longrightarrow> flag (short (castlingRights b)) c) \<and>
         (flag (long (castlingRights b')) c \<longrightarrow> flag (long (castlingRights b)) c)"
proof (cases ok)
  case False
  with assms have "b' = b"
    by (auto simp: makeMoveIfValid_def Let_def split: option.splits bool.splits if_splits prod.splits)
  then show ?thesis by simp
next
  case True
  with assms have "makeMoveIfValid att a b src dest ex = Some (True, b')" by simp
  from makeMoveIfValid_True [OF this] obtain piece' :: Piece and b3 b4 m lm where
    "castlingRights b3 = castlingRights b" "afterMove a b3 piece' m = Some (b4, lm)"
    "castlingRights b' = castlingRights b4"
    by blast
  with afterMove_rights [of a b3 piece' m b4 lm c] show ?thesis by simp
qed

text \<open>The move of a king takes both rights of its color, the move of a rook from the H
  file the short one and from the A file the long one.\<close>

lemma makeMoveIfValid_king_moved:
  assumes "makeMoveIfValid att a b src dest ex = Some (True, b')"
    and "getPiece b src = Some k" "type k = KING"
  shows "\<not> flag (short (castlingRights b')) (color k) \<and>
         \<not> flag (long (castlingRights b')) (color k)"
proof -
  from makeMoveIfValid_True [OF assms(1)] assms(2) obtain piece' :: Piece and b3 b4 m lm where
    "type piece' = type k" "color piece' = color k"
    "afterMove a b3 piece' m = Some (b4, lm)" "castlingRights b' = castlingRights b4"
    by auto
  with afterMove_king [of a b3 piece' m b4 lm] assms(3) show ?thesis by simp
qed

lemma makeMoveIfValid_rook_moved:
  assumes "makeMoveIfValid att a b src dest ex = Some (True, b')"
    and "getPiece b src = Some r" "type r = ROOK"
  shows "(fileNumber src = 8 \<longrightarrow> \<not> flag (short (castlingRights b')) (color r)) \<and>
         (fileNumber src = 1 \<longrightarrow> \<not> flag (long (castlingRights b')) (color r))"
proof -
  from makeMoveIfValid_True [OF assms(1)] assms(2) obtain piece' :: Piece and b3 b4 m lm where
    "type piece' = type r" "color piece' = color r" "move_from m = src"
    "afterMove a b3 piece' m = Some (b4, lm)" "castlingRights b' = castlingRights b4"
    by auto
  with afterMove_rook [of a b3 piece' m b4 lm] assms(3) show ?thesis by simp
qed

lemma makeMove_rights:
  assumes "makeMove att a g src dest ex = Some (r, g')"
  shows "(flag (short (castlingRights (board (currentState g')))) c \<longrightarrow>
            flag (short (castlingRights (board (currentState g)))) c) \<and>
         (flag (long (castlingRights (board (currentState g')))) c \<longrightarrow>
            flag (long (castlingRights (board (currentState g)))) c)"
proof (cases "r = MOVE_OK")
  case False
  with assms have "g' = g"
    by (auto simp: makeMove_def Let_def split: if_splits option.splits bool.splits prod.splits)
  then show ?thesis by simp
next
  case True
  with assms have "makeMove att a g src dest ex = Some (MOVE_OK, g')" by simp
  from makeMove_OK [OF this] obtain piece :: Piece and newBoard nb lm where
    cl: "cloneBoard (board (currentState g)) = Some newBoard"
    and mv: "makeMoveIfValid att a newBoard (location piece) dest ex = Some (True, nb)"
    and c: "concludeMove att a (installed g nb lm) = Some g'"
    by blast
  from concludeMove_variant [OF c]
  have "castlingRights (board (currentState g')) = castlingRights nb"
    by (auto simp: stateVariant_def cacheVariant_def installed_def)
  with makeMoveIfValid_rights [OF mv, of c] cloneBoard_rights [OF cl] show ?thesis by simp
qed

lemma set_update_cases:
  "x \<in> set (AList.update k v ps) \<Longrightarrow> x = (k, v) \<or> x \<in> set ps"
  by (induction ps) (auto split: if_splits)

lemma cloneFold_pieces:
  "(key, p') \<in> set (pieces (foldl (\<lambda>nb (loc, p).
      nb\<lparr>pieces := AList.update loc (cloneToAnotherBoard p nb) (pieces nb)\<rparr>) nb ps)) \<Longrightarrow>
   (key, p') \<in> set (pieces nb) \<or>
   (\<exists>p. (key, p) \<in> set ps \<and> type p' = type p \<and> color p' = color p)"
proof (induction ps arbitrary: nb)
  case Nil
  then show ?case by simp
next
  case (Cons x ps)
  obtain loc p where x: "x = (loc, p)" by (cases x)
  let ?nb = "nb\<lparr>pieces := AList.update loc (cloneToAnotherBoard p nb) (pieces nb)\<rparr>"
  from Cons.prems x Cons.IH [of ?nb]
  have "(key, p') \<in> set (AList.update loc (cloneToAnotherBoard p nb) (pieces nb)) \<or>
        (\<exists>p. (key, p) \<in> set ps \<and> type p' = type p \<and> color p' = color p)"
    by simp
  then show ?case
  proof
    assume "(key, p') \<in> set (AList.update loc (cloneToAnotherBoard p nb) (pieces nb))"
    from set_update_cases [OF this] x show ?thesis
      by (auto simp: cloneToAnotherBoard_def)
  next
    assume "\<exists>p. (key, p) \<in> set ps \<and> type p' = type p \<and> color p' = color p"
    then show ?thesis by auto
  qed
qed

lemma cloneBoard_getPiece:
  assumes "cloneBoard b = Some nb" "getPiece nb sq = Some p'"
  shows "\<exists>p. (asString sq, p) \<in> set (pieces b) \<and> type p' = type p \<and> color p' = color p"
proof -
  let ?nb0 = "Board_new\<lparr>castlingRights :=
                   \<lparr>long = \<lparr>white = flag (long (castlingRights b)) WHITE,
                            black = flag (long (castlingRights b)) BLACK\<rparr>,
                    short = \<lparr>white = flag (short (castlingRights b)) WHITE,
                             black = flag (short (castlingRights b)) BLACK\<rparr>\<rparr>,
                 enPassantSquare := enPassantSquare b\<rparr>"
  let ?nb1 = "foldl (\<lambda>nb (loc, p).
                   nb\<lparr>pieces := AList.update loc (cloneToAnotherBoard p nb) (pieces nb)\<rparr>)
                 ?nb0 (pieces b)"
  from assms(1) have "pieces nb = pieces ?nb1"
    by (auto simp: cloneBoard_def Let_def split: option.splits)
  with assms(2) have "(asString sq, p') \<in> set (pieces ?nb1)"
    by (simp add: getPiece_def map_of_SomeD)
  from cloneFold_pieces [OF this] show ?thesis by (simp add: Board_new_def)
qed

text \<open>
  In a game, the move of a king takes the castling rights of its color, and the move of a
  rook that leaves the H or the A file the right of that side; no later move gives them
  back, and \<open>King.isMoveValid\<close> asks for the right.
\<close>

lemma makeMove_moved:
  assumes "makeMove att a g src dest ex = Some (MOVE_OK, g')"
    and "getPiece (board (currentState g)) src = Some k"
    and "wellKeyed (board (currentState g))"
  shows "(type k = KING \<longrightarrow>
            \<not> flag (short (castlingRights (board (currentState g')))) (color k) \<and>
            \<not> flag (long (castlingRights (board (currentState g')))) (color k)) \<and>
         (type k = ROOK \<and> fileNumber (location k) = 8 \<longrightarrow>
            \<not> flag (short (castlingRights (board (currentState g')))) (color k)) \<and>
         (type k = ROOK \<and> fileNumber (location k) = 1 \<longrightarrow>
            \<not> flag (long (castlingRights (board (currentState g')))) (color k))"
proof -
  let ?b = "board (currentState g)"
  from makeMove_OK [OF assms(1)] assms(2) obtain newBoard nb lm where
    cl: "cloneBoard ?b = Some newBoard"
    and mv: "makeMoveIfValid att a newBoard (location k) dest ex = Some (True, nb)"
    and c: "concludeMove att a (installed g nb lm) = Some g'"
    by auto
  from concludeMove_variant [OF c]
  have eq: "castlingRights (board (currentState g')) = castlingRights nb"
    by (auto simp: stateVariant_def cacheVariant_def installed_def)
  from makeMoveIfValid_True [OF mv] obtain piece :: Piece where
    np: "getPiece newBoard (location k) = Some piece"
    by blast
  from cloneBoard_getPiece [OF cl np] obtain p where
    p: "(asString (location k), p) \<in> set (pieces ?b)" "type piece = type p" "color piece = color p"
    by blast
  from assms(3) have d: "distinct (map fst (pieces ?b))" and pl: "placedKeys ?b"
    by (simp_all add: wellKeyed_def distinctKeys_def)
  from placedKeys_getPiece [OF pl assms(2)]
  have "asString (location k) = asString src" by simp
  with p(1) d have "getPiece ?b src = Some p"
    by (simp add: getPiece_def)
  with assms(2) have "p = k" by simp
  with p have tc: "type piece = type k" "color piece = color k" by simp_all
  from makeMoveIfValid_king_moved [OF mv np] makeMoveIfValid_rook_moved [OF mv np] eq tc
  show ?thesis by simp
qed

text \<open>
  In a game that the operations of \<open>Game\<close> have made of a new game, a king of the board
  that is allowed to castle short stands on its home square, and the squares of the F
  and of the G file beside it are empty; for the long side those of the D, C and B file.
\<close>

lemma reachable_castling:
  assumes "reachable g" "getPiece (board (currentState g)) src = Some k"
    and "King_isMoveValid att (board (currentState g)) k dest = Some True"
  shows "(fileNumber dest = fileNumber (location k) + 2 \<longrightarrow>
            location k = Square_new 5 (if color k = WHITE then 1 else 8) \<and>
            getPiece (board (currentState g)) (Square_new 6 (rankNumber (location k))) = None \<and>
            getPiece (board (currentState g)) (Square_new 7 (rankNumber (location k))) = None) \<and>
         (fileNumber dest = fileNumber (location k) - 2 \<longrightarrow>
            location k = Square_new 5 (if color k = WHITE then 1 else 8) \<and>
            getPiece (board (currentState g)) (Square_new 4 (rankNumber (location k))) = None \<and>
            getPiece (board (currentState g)) (Square_new 3 (rankNumber (location k))) = None \<and>
            getPiece (board (currentState g)) (Square_new 2 (rankNumber (location k))) = None)"
proof -
  from reachable_gameKeys [OF assms(1)] have pl: "placedKeys (board (currentState g))"
    by (simp add: gameKeys_def wellKeyed_def)
  from placedKeys_getPiece [OF pl assms(2)] have v: "isValid (location k)" by simp
  from castling_short_squares [OF pl v assms(3)] castling_long_squares [OF pl v assms(3)]
  show ?thesis by blast
qed

text \<open>
  The right is the right of the king and of the side, not of a rook.  On \<open>castleRookG1\<close>
  the rook moves from G1 to H1 and the black king from A8 to A7: White still has the short
  right, and the king castles with the rook that has moved.
\<close>

lemma castling_with_a_rook_that_has_moved:
  "map_option (\<lambda>g. map_option fst
       (makeMove (isAttacked 3) 0 g (Square_new 5 1) (Square_new 7 1) None))
     (quietMoves (isAttacked 3) (gameOn castleRookG1 WHITE 0)
        [(0, Square_new 7 1, Square_new 8 1, None), (0, Square_new 1 8, Square_new 1 7, None)])
   = Some (Some MOVE_OK)"
  by code_simp


section \<open>The half-move clock\<close>

text \<open>
  The record of a move: its piece is the piece that has moved, and it is a capture when
  a piece stood on the destination, or when a pawn has moved onto the en passant square.
\<close>

lemma afterMove_move:
  assumes "afterMove a b p m = Some (b', m')"
  shows "move_piece m' = move_piece m \<and>
         (move_capture m' \<longleftrightarrow>
            move_capture m \<or>
            (type p = PAWN \<and> Square_equals (move_to m) (map_option ref_square (enPassantSquare b))))"
  using assms
  by (cases "type p") (auto simp: afterMove_def Pawn_afterMove_def Let_def split: if_splits)

lemma makeMoveIfValid_lastMove:
  assumes "makeMoveIfValid att a b src dest ex = Some (True, b')"
  shows "\<exists>piece lm.
           getPiece b src = Some piece \<and> lastMove b' = Some lm \<and>
           map_option type (move_piece lm) = Some (type piece) \<and>
           (move_capture lm \<longleftrightarrow>
              getPiece b dest \<noteq> None \<or>
              (type piece = PAWN \<and>
               Square_equals dest (map_option ref_square (enPassantSquare b))))"
proof -
  let ?b2 = "removePieceAt (if getPiece b dest \<noteq> None then removePieceAt b dest else b) src"
  let ?p = "\<lambda>piece. updateLocation ?b2 piece dest"
  let ?m = "\<lambda>piece. \<lparr>move_piece = Some (?p piece), move_from = src, move_to = dest,
                   move_capture = (getPiece b dest \<noteq> None), move_extra = ex\<rparr>"
  from assms obtain piece b4 lm where
    p: "getPiece b src = Some piece"
    and am: "afterMove a (setPiece ?b2 (?p piece)) (?p piece) (?m piece) = Some (b4, lm)"
    and b': "b' = (recalculateAllPiecesMoves b4)\<lparr>lastMove := Some lm, highlightedSquares := [dest, src]\<rparr>"
    by (auto simp: makeMoveIfValid_def Let_def split: option.splits bool.splits if_splits prod.splits)
  have ep: "enPassantSquare (setPiece ?b2 (?p piece)) = enPassantSquare b"
    by (simp add: setPiece_def removePieceAt_def)
  have ty: "type (?p piece) = type piece" by (simp add: updateLocation_def)
  from afterMove_move [OF am] ep ty
  have "move_piece lm = Some (?p piece)"
    "move_capture lm \<longleftrightarrow>
       getPiece b dest \<noteq> None \<or>
       (type piece = PAWN \<and> Square_equals dest (map_option ref_square (enPassantSquare b)))"
    by simp_all
  with p b' ty show ?thesis by simp
qed

lemma cloneFold_keys:
  "fst ` set (pieces (foldl (\<lambda>nb (loc, p).
      nb\<lparr>pieces := AList.update loc (cloneToAnotherBoard p nb) (pieces nb)\<rparr>) nb ps)) =
   fst ` set (pieces nb) \<union> fst ` set ps"
  by (induction ps arbitrary: nb) (auto simp: dom_update split_beta)

lemma cloneFold_enPassant:
  "enPassantSquare (foldl (\<lambda>nb (loc, p).
      nb\<lparr>pieces := AList.update loc (cloneToAnotherBoard p nb) (pieces nb)\<rparr>) nb ps) =
   enPassantSquare nb"
  by (induction ps arbitrary: nb) (auto simp: split_beta)

lemma cloneBoard_occupied:
  assumes "cloneBoard b = Some nb"
  shows "(getPiece nb sq = None) = (getPiece b sq = None)"
    and "enPassantSquare nb = enPassantSquare b"
proof -
  let ?nb0 = "Board_new\<lparr>castlingRights :=
                   \<lparr>long = \<lparr>white = flag (long (castlingRights b)) WHITE,
                            black = flag (long (castlingRights b)) BLACK\<rparr>,
                    short = \<lparr>white = flag (short (castlingRights b)) WHITE,
                             black = flag (short (castlingRights b)) BLACK\<rparr>\<rparr>,
                 enPassantSquare := enPassantSquare b\<rparr>"
  let ?nb1 = "foldl (\<lambda>nb (loc, p).
                   nb\<lparr>pieces := AList.update loc (cloneToAnotherBoard p nb) (pieces nb)\<rparr>)
                 ?nb0 (pieces b)"
  from assms have e: "pieces nb = pieces ?nb1" "enPassantSquare nb = enPassantSquare ?nb1"
    by (auto simp: cloneBoard_def Let_def split: option.splits)
  from e(1) cloneFold_keys [of ?nb0 "pieces b"]
  have "fst ` set (pieces nb) = fst ` set (pieces b)" by (simp add: Board_new_def)
  then show "(getPiece nb sq = None) = (getPiece b sq = None)"
    by (simp add: getPiece_def map_of_eq_None_iff)
  from e(2) show "enPassantSquare nb = enPassantSquare b"
    by (simp add: cloneFold_enPassant)
qed

text \<open>The piece that a successful \<open>makeMove\<close> has moved, and the record of the move.\<close>

lemma makeMove_lastMove:
  assumes "makeMove att a g src dest ex = Some (MOVE_OK, g')"
    and "wellKeyed (board (currentState g))"
  shows "\<exists>piece lm.
           getPiece (board (currentState g)) src = Some piece \<and>
           lastMove (board (currentState g')) = Some lm \<and>
           map_option type (move_piece lm) = Some (type piece) \<and>
           (move_capture lm \<longleftrightarrow>
              getPiece (board (currentState g)) dest \<noteq> None \<or>
              (type piece = PAWN \<and>
               Square_equals dest
                 (map_option ref_square (enPassantSquare (board (currentState g))))))"
proof -
  let ?b = "board (currentState g)"
  from makeMove_OK [OF assms(1)] obtain k newBoard nb lm where
    k: "getPiece ?b src = Some k"
    and cl: "cloneBoard ?b = Some newBoard"
    and mv: "makeMoveIfValid att a newBoard (location k) dest ex = Some (True, nb)"
    and lm: "lastMove nb = Some lm"
    and c: "concludeMove att a (installed g nb lm) = Some g'"
    by blast
  from concludeMove_variant [OF c]
  have eq: "lastMove (board (currentState g')) = lastMove nb"
    by (auto simp: stateVariant_def cacheVariant_def installed_def)
  from makeMoveIfValid_lastMove [OF mv] lm obtain piece where
    np: "getPiece newBoard (location k) = Some piece"
    and ty: "map_option type (move_piece lm) = Some (type piece)"
    and cp: "move_capture lm \<longleftrightarrow>
              getPiece newBoard dest \<noteq> None \<or>
              (type piece = PAWN \<and>
               Square_equals dest (map_option ref_square (enPassantSquare newBoard)))"
    by auto
  from cloneBoard_getPiece [OF cl np] obtain p where
    p: "(asString (location k), p) \<in> set (pieces ?b)" "type piece = type p"
    by blast
  from assms(2) have d: "distinct (map fst (pieces ?b))" and pl: "placedKeys ?b"
    by (simp_all add: wellKeyed_def distinctKeys_def)
  from placedKeys_getPiece [OF pl k]
  have "asString (location k) = asString src" by simp
  with p(1) d have "getPiece ?b src = Some p"
    by (simp add: getPiece_def)
  with k have "p = k" by simp
  with p have tk: "type piece = type k" by simp
  from cloneBoard_occupied [OF cl] cp tk ty k lm eq show ?thesis by simp
qed

lemma fifty_iff:
  assumes "makeMove att a g src dest ex = Some (MOVE_OK, g')"
  shows "result g' = FIFTY_MOVES \<longleftrightarrow>
           50 \<le> halfMoveClock (currentState g') \<and>
           getValidMovesFor att a (board (currentState g')) (currentTurn (currentState g')) \<noteq>
             Some [] \<and>
           \<not> checkForInsufficientMaterial g' \<and> \<not> fst (checkForThreefoldRepetition g')"
proof -
  from makeMove_OK [OF assms] obtain nb lm where
    r: "result g = ONGOING" and c: "concludeMove att a (installed g nb lm) = Some g'"
    by blast
  from r have "result (installed g nb lm) = ONGOING" by (simp add: installed_def)
  from concludeMove_result [OF c this] show ?thesis
    by (auto simp: checkForFiftyMoveRuleViolation_def split: if_splits)
qed


text \<open>The clock after a successful move, from the piece that has moved and its destination.\<close>

lemma makeMove_halfMoveClock:
  assumes "makeMove att a g src dest ex = Some (MOVE_OK, g')"
    and "wellKeyed (board (currentState g))"
  shows "\<exists>piece. getPiece (board (currentState g)) src = Some piece \<and>
           halfMoveClock (currentState g') =
             (if type piece = PAWN \<or> getPiece (board (currentState g)) dest \<noteq> None then 0
              else halfMoveClock (currentState g) + 1)"
proof -
  from makeMove_OK [OF assms(1)] obtain nb lm where
    lm: "lastMove nb = Some lm"
    and c: "concludeMove att a (installed g nb lm) = Some g'"
    by blast
  from concludeMove_variant [OF c] obtain b' where
    b': "cacheVariant nb b'" "currentState g' = (currentState (installed g nb lm))\<lparr>board := b'\<rparr>"
    by (auto simp: stateVariant_def installed_def)
  have l: "lastMove (board (currentState g')) = Some lm"
    using b' lm cacheVariant_fields [OF b'(1)] by simp
  have cl: "halfMoveClock (currentState g') =
            (if move_capture lm \<or> map_option type (move_piece lm) = Some PAWN then 0
             else halfMoveClock (currentState g) + 1)"
    using b'(2) by (simp add: installed_def)
  from makeMove_lastMove [OF assms] l cl show ?thesis by auto
qed

text \<open>
  C5: the half-move clock of a new game is 0.  A successful move sets it to 0 when the
  move is a capture or the move of a pawn, and adds 1 to it otherwise: so by the record
  of the move, and, on a board that keeps every piece under the name of its square, so
  by the move itself, which is the move of a pawn or a move onto an occupied square (a
  pawn that takes en passant is a pawn).  The result of the game is \<open>FIFTY_MOVES\<close> exactly
  when the clock has reached 50 and none of the earlier conditions (no valid move,
  insufficient material, threefold repetition) applies.
\<close>

theorem halfMoveClock_rule:
  "halfMoveClock (currentState reset) = 0 \<and>
   (makeMove att a g src dest ex = Some (MOVE_OK, g') \<longrightarrow>
      (\<exists>lm. lastMove (board (currentState g')) = Some lm \<and>
            halfMoveClock (currentState g') =
              (if move_capture lm \<or> map_option type (move_piece lm) = Some PAWN then 0
               else halfMoveClock (currentState g) + 1)) \<and>
      (wellKeyed (board (currentState g)) \<longrightarrow>
         (\<exists>piece. getPiece (board (currentState g)) src = Some piece \<and>
            halfMoveClock (currentState g') =
              (if type piece = PAWN \<or> getPiece (board (currentState g)) dest \<noteq> None then 0
               else halfMoveClock (currentState g) + 1))) \<and>
      (result g' = FIFTY_MOVES \<longleftrightarrow>
         50 \<le> halfMoveClock (currentState g') \<and>
         getValidMovesFor att a (board (currentState g')) (currentTurn (currentState g')) \<noteq>
           Some [] \<and>
         \<not> checkForInsufficientMaterial g' \<and> \<not> fst (checkForThreefoldRepetition g')))"
proof -
  have "halfMoveClock (currentState reset) = 0" by (simp add: reset_def)
  moreover have "(\<exists>lm. lastMove (board (currentState g')) = Some lm \<and>
            halfMoveClock (currentState g') =
              (if move_capture lm \<or> map_option type (move_piece lm) = Some PAWN then 0
               else halfMoveClock (currentState g) + 1)) \<and>
      (wellKeyed (board (currentState g)) \<longrightarrow>
         (\<exists>piece. getPiece (board (currentState g)) src = Some piece \<and>
            halfMoveClock (currentState g') =
              (if type piece = PAWN \<or> getPiece (board (currentState g)) dest \<noteq> None then 0
               else halfMoveClock (currentState g) + 1))) \<and>
      (result g' = FIFTY_MOVES \<longleftrightarrow>
         50 \<le> halfMoveClock (currentState g') \<and>
         getValidMovesFor att a (board (currentState g')) (currentTurn (currentState g')) \<noteq>
           Some [] \<and>
         \<not> checkForInsufficientMaterial g' \<and> \<not> fst (checkForThreefoldRepetition g'))"
    if ok: "makeMove att a g src dest ex = Some (MOVE_OK, g')"
  proof -
    from makeMove_OK [OF ok] obtain nb lm where
      lm: "lastMove nb = Some lm"
      and c: "concludeMove att a (installed g nb lm) = Some g'"
      by blast
    from concludeMove_variant [OF c] obtain b' where
      b': "cacheVariant nb b'" "currentState g' = (currentState (installed g nb lm))\<lparr>board := b'\<rparr>"
      by (auto simp: stateVariant_def installed_def)
    have l: "lastMove (board (currentState g')) = Some lm"
      using b' lm cacheVariant_fields [OF b'(1)] by simp
    have cl: "halfMoveClock (currentState g') =
              (if move_capture lm \<or> map_option type (move_piece lm) = Some PAWN then 0
               else halfMoveClock (currentState g) + 1)"
      using b'(2) by (simp add: installed_def)
    have "\<exists>piece. getPiece (board (currentState g)) src = Some piece \<and>
            halfMoveClock (currentState g') =
              (if type piece = PAWN \<or> getPiece (board (currentState g)) dest \<noteq> None then 0
               else halfMoveClock (currentState g) + 1)"
      if "wellKeyed (board (currentState g))"
      using makeMove_lastMove [OF ok that] l cl by auto
    with l cl fifty_iff [OF ok] show ?thesis by blast
  qed
  ultimately show ?thesis by blast
qed

text \<open>
  A move of the rook on \<open>rookEnding\<close> ends the game with the clock at 49 and does not
  with the clock at 48.  With the clock at 49, the king that takes the rook on
  \<open>rookEnPrise\<close> and the pawn that moves on \<open>blockedPawn\<close> set the clock to 0.
\<close>

theorem halfMoveClock_rule_witness:
  "halfMoveClock (currentState reset) = 0 \<and>
   (\<exists>g'. makeMove (isAttacked 3) 0 (gameOn rookEnding WHITE 49) (Square_new 1 1) (Square_new 1 2)
            None = Some (MOVE_OK, g') \<and>
         halfMoveClock (currentState g') = 50 \<and> result g' = FIFTY_MOVES) \<and>
   (\<exists>g'. makeMove (isAttacked 3) 0 (gameOn rookEnding WHITE 48) (Square_new 1 1) (Square_new 1 2)
            None = Some (MOVE_OK, g') \<and>
         halfMoveClock (currentState g') = 49 \<and> result g' \<noteq> FIFTY_MOVES) \<and>
   (\<exists>g'. makeMove (isAttacked 3) 0 (gameOn rookEnPrise WHITE 49) (Square_new 5 1) (Square_new 4 2)
            None = Some (MOVE_OK, g') \<and>
         halfMoveClock (currentState g') = 0 \<and> result g' \<noteq> FIFTY_MOVES) \<and>
   (\<exists>g'. makeMove (isAttacked 3) 0 (gameOn blockedPawn WHITE 49) (Square_new 5 2) (Square_new 5 4)
            None = Some (MOVE_OK, g') \<and>
         halfMoveClock (currentState g') = 0 \<and> result g' \<noteq> FIFTY_MOVES)"
proof -
  let ?x = "makeMove (isAttacked 3) 0 (gameOn rookEnding WHITE 49) (Square_new 1 1)
              (Square_new 1 2) None"
  let ?g = "snd (the ?x)"
  have "map_option fst ?x = Some MOVE_OK" by code_simp
  then have 1: "?x = Some (MOVE_OK, ?g)" by (rule eval_ok)
  have 2: "currentTurn (currentState ?g) = BLACK" by code_simp
  have 3: "map_option (\<lambda>ms. ms = [])
             (getValidMovesFor (isAttacked 3) 0 (board (currentState ?g)) BLACK) = Some False"
    by code_simp
  have 4: "\<not> checkForInsufficientMaterial ?g" by code_simp
  have 5: "\<not> fst (checkForThreefoldRepetition ?g)" by code_simp
  have w: "wellKeyed rookEnding" by code_simp
  have 6: "map_option type (getPiece rookEnding (Square_new 1 1)) = Some ROOK" by code_simp
  have 7: "getPiece rookEnding (Square_new 1 2) = None" by code_simp
  from halfMoveClock_rule [of "isAttacked 3" 0 "gameOn rookEnding WHITE 49" "Square_new 1 1"
      "Square_new 1 2" None ?g] 1 2 3 4 5 6 7 w
  have A: "halfMoveClock (currentState ?g) = 50 \<and> result ?g = FIFTY_MOVES"
    by (auto simp: gameOn_def)
  let ?y = "makeMove (isAttacked 3) 0 (gameOn rookEnding WHITE 48) (Square_new 1 1)
              (Square_new 1 2) None"
  let ?h = "snd (the ?y)"
  have "map_option fst ?y = Some MOVE_OK" by code_simp
  then have 8: "?y = Some (MOVE_OK, ?h)" by (rule eval_ok)
  from halfMoveClock_rule [of "isAttacked 3" 0 "gameOn rookEnding WHITE 48" "Square_new 1 1"
      "Square_new 1 2" None ?h] 8 6 7 w
  have B: "halfMoveClock (currentState ?h) = 49 \<and> result ?h \<noteq> FIFTY_MOVES"
    by (auto simp: gameOn_def)
  let ?z = "makeMove (isAttacked 3) 0 (gameOn rookEnPrise WHITE 49) (Square_new 5 1)
              (Square_new 4 2) None"
  let ?i = "snd (the ?z)"
  have "map_option fst ?z = Some MOVE_OK" by code_simp
  then have 9: "?z = Some (MOVE_OK, ?i)" by (rule eval_ok)
  have w2: "wellKeyed rookEnPrise" by code_simp
  have 10: "map_option type (getPiece rookEnPrise (Square_new 5 1)) = Some KING" by code_simp
  have 11: "map_option type (getPiece rookEnPrise (Square_new 4 2)) = Some ROOK" by code_simp
  from halfMoveClock_rule [of "isAttacked 3" 0 "gameOn rookEnPrise WHITE 49" "Square_new 5 1"
      "Square_new 4 2" None ?i] 9 10 11 w2
  have C: "halfMoveClock (currentState ?i) = 0 \<and> result ?i \<noteq> FIFTY_MOVES"
    by (auto simp: gameOn_def)
  let ?u = "makeMove (isAttacked 3) 0 (gameOn blockedPawn WHITE 49) (Square_new 5 2)
              (Square_new 5 4) None"
  let ?j = "snd (the ?u)"
  have "map_option fst ?u = Some MOVE_OK" by code_simp
  then have 12: "?u = Some (MOVE_OK, ?j)" by (rule eval_ok)
  have w3: "wellKeyed blockedPawn" by code_simp
  have 13: "map_option type (getPiece blockedPawn (Square_new 5 2)) = Some PAWN" by code_simp
  from halfMoveClock_rule [of "isAttacked 3" 0 "gameOn blockedPawn WHITE 49" "Square_new 5 2"
      "Square_new 5 4" None ?j] 12 13 w3
  have D: "halfMoveClock (currentState ?j) = 0 \<and> result ?j \<noteq> FIFTY_MOVES"
    by (auto simp: gameOn_def)
  have "halfMoveClock (currentState reset) = 0" by (simp add: reset_def)
  with A B C D 1 8 9 12 show ?thesis by blast
qed

text \<open>
  After \<open>n\<close> successful calls of \<open>makeMove\<close> in a row that move no pawn and take no
  piece, the clock is \<open>n\<close> more than before.
\<close>

lemma halfMoveClock_quietMoves:
  "gameKeys g \<Longrightarrow> quietMoves att g ms = Some g' \<Longrightarrow>
   halfMoveClock (currentState g') = halfMoveClock (currentState g) + int (length ms)"
proof (induction ms arbitrary: g)
  case Nil
  then show ?case by simp
next
  case (Cons m ms)
  obtain a src dest ex where m: "m = (a, src, dest, ex)" by (cases m)
  let ?b = "board (currentState g)"
  from Cons.prems(2) m obtain piece g1 where
    p: "getPiece ?b src = Some piece" "type piece \<noteq> PAWN" "getPiece ?b dest = None"
    and mk: "makeMove att a g src dest ex = Some (MOVE_OK, g1)"
    and rest: "quietMoves att g1 ms = Some g'"
    by (auto split: option.splits if_splits)
  from Cons.prems(1) have "wellKeyed ?b" by (simp add: gameKeys_def)
  from makeMove_halfMoveClock [OF mk this] p
  have "halfMoveClock (currentState g1) = halfMoveClock (currentState g) + 1" by simp
  moreover from Cons.IH [OF gameKeys_makeMove [OF mk Cons.prems(1)] rest]
  have "halfMoveClock (currentState g') = halfMoveClock (currentState g1) + int (length ms)" .
  ultimately show ?case by simp
qed

lemma reachable_quietMoves:
  "reachable g \<Longrightarrow> quietMoves att g ms = Some g' \<Longrightarrow>
   halfMoveClock (currentState g') = halfMoveClock (currentState g) + int (length ms)"
  using halfMoveClock_quietMoves reachable_gameKeys by blast

end
